theory Spec2Isabelle
  imports Main "HOL-Library.Word" "HOL-Library.Sublist" "HOL-Library.Multiset"
    "HOL-Library.Char_ord" "HOL-Library.List_Lexorder"
begin

section \<open>Errors and handles\<close>

text \<open>
  The library never returns an error: every unrecoverable condition ends in \<open>abort()\<close>.
  The model returns the reason as a value. \<open>Buffer_Overflow\<close> stands for \<open>sprintf\<close>
  writing beyond the 4096 bytes of the buffer \<open>t\<close> of \<open>get_lock_filename\<close>;
  \<open>Null_Pointer\<close> for \<open>Lock()\<close> reading through a \<open>parent_platform\<close> that is \<open>NULL\<close>.
\<close>

datatype error =
    No_Platform_Found
  | Unknown_Platform
  | OpenCL_Error
  | Assertion_Failed
  | Unknown_Device_Type
  | All_Devices_In_Use
  | Cannot_Set_Context
  | Lock_Error
  | No_Device_Present
  | Buffer_Overflow
  | Null_Pointer

type_synonym cl_int = int
type_synonym cl_platform_id = nat
type_synonym cl_device_id = nat
type_synonym cl_context = nat

definition CL_SUCCESS :: cl_int where
  "CL_SUCCESS = 0"

definition CL_DEVICE_NOT_FOUND :: cl_int where
  "CL_DEVICE_NOT_FOUND = - 1"

section \<open>Lock file names\<close>

text \<open>
  \<open>printf\<close>'s \<open>%d\<close>: the decimal digits of an \<open>int\<close>, with a minus sign in front of a
  negative one.
\<close>

definition digit_char :: "nat \<Rightarrow> char" where
  "digit_char n = ''0123456789'' ! n"

function decimal_nat :: "nat \<Rightarrow> string" where
  "decimal_nat n = (if n < 10 then [digit_char n]
                    else decimal_nat (n div 10) @ [digit_char (n mod 10)])"
  by pat_completeness auto
termination
  by (relation "measure (\<lambda>n. n)") auto

declare decimal_nat.simps [simp del]

definition percent_d :: "int \<Rightarrow> string" where
  "percent_d i = (if i < 0 then CHR ''-'' # decimal_nat (nat (- i)) else decimal_nat (nat i))"

text \<open>
  \<open>isalpha\<close> and \<open>isdigit\<close> of \<open>cctype\<close>, in the "C" locale (the program never calls
  \<open>setlocale\<close>): the 52 letters and the 10 digits of ASCII, by their codes.
\<close>

definition isalpha :: "char \<Rightarrow> bool" where
  "isalpha c = (let n = (of_char c :: nat) in (65 \<le> n \<and> n \<le> 90) \<or> (97 \<le> n \<and> n \<le> 122))"

definition isdigit :: "char \<Rightarrow> bool" where
  "isdigit c = (let n = (of_char c :: nat) in 48 \<le> n \<and> n \<le> 57)"

text \<open>
  \<open>sprintf(t, "Platform: %d  Device: %d (%s, %s)", platform_id_offset, device_id,
  platform_name.c_str(), device_name.c_str())\<close>. A \<open>string\<close> of the model is the content
  of a C string: every \<open>std::string\<close> of the program is built from a NUL-terminated
  buffer, so the byte 0 does not occur in it.
\<close>

definition string_base :: "int \<Rightarrow> int \<Rightarrow> string \<Rightarrow> string \<Rightarrow> string" where
  "string_base platform_id_offset device_id platform_name device_name =
     ''Platform: '' @ percent_d platform_id_offset @ ''  Device: '' @ percent_d device_id
       @ '' ('' @ platform_name @ '', '' @ device_name @ '')''"

text \<open>
  The loop \<open>for (int i = 0; i < len; i++)\<close> of \<open>get_lock_filename\<close>, which overwrites
  \<open>t[i]\<close> in place.
\<close>

function replace_non_alnum :: "nat \<Rightarrow> nat \<Rightarrow> string \<Rightarrow> string" where
  "replace_non_alnum i len t =
     (if i < len
      then replace_non_alnum (Suc i) len
             (if \<not> isalpha (t ! i) \<and> \<not> isdigit (t ! i) then t[i := CHR ''_''] else t)
      else t)"
  by pat_completeness auto
termination
  by (relation "measure (\<lambda>(i, len, t). len - i)") auto

declare replace_non_alnum.simps [simp del]

text \<open>
  \<open>t\<close> is \<open>char t[4096]\<close>: the text and its terminating NUL fit when the text has at most
  4095 characters. \<open>sprintf\<close> does not check; beyond that it writes past the buffer.
\<close>

definition get_lock_filename :: "int \<Rightarrow> int \<Rightarrow> string \<Rightarrow> string \<Rightarrow> error + string" where
  "get_lock_filename device_id platform_id_offset platform_name device_name =
     (let f = ''/tmp/gpu'';
          t = string_base platform_id_offset device_id platform_name device_name
      in if 4096 \<le> length t then Inl Buffer_Overflow
         else let len = length t;
                  t' = replace_non_alnum 0 len t
              in Inr (f @ t' @ ''.lck''))"

text \<open>What one round of the loop does to the character it visits.\<close>

definition underscore :: "char \<Rightarrow> char" where
  "underscore c = (if \<not> isalpha c \<and> \<not> isdigit c then CHR ''_'' else c)"

text \<open>
  The path as the specification words it: every character that is not an ASCII letter or
  digit is replaced by an underscore.
\<close>

definition ascii_letter_or_digit :: "char \<Rightarrow> bool" where
  "ascii_letter_or_digit c \<longleftrightarrow>
     c \<in> set ''ABCDEFGHIJKLMNOPQRSTUVWXYZabcdefghijklmnopqrstuvwxyz0123456789''"

definition spec_lock_path :: "int \<Rightarrow> int \<Rightarrow> string \<Rightarrow> string \<Rightarrow> string" where
  "spec_lock_path discovery_offset device_id platform_name device_name =
     ''/tmp/gpu''
     @ map (\<lambda>c. if ascii_letter_or_digit c then c else CHR ''_'')
         (''Platform: '' @ percent_d discovery_offset @ ''  Device: '' @ percent_d device_id
            @ '' ('' @ platform_name @ '', '' @ device_name @ '')'')
     @ ''.lck''"

section \<open>The environment: the OpenCL API and the lock files of other processes\<close>

text \<open>
  The OpenCL API and the file system are outside the repository. The model takes their
  answers from an environment that stays the same during the calls considered: what each
  API query returns, which paths \<open>open\<close> cannot open, on which files another process
  holds a \<open>flock\<close> lock, and on which files \<open>flock\<close> fails for another reason.
  \<open>clGetPlatformIDs\<close> and \<open>clGetDeviceIDs\<close> are each called twice, for the count and for
  the handles: the environment gives the error code and the list of handles, and the
  count is the length of that list.
\<close>

datatype cl_platform_info =
    CL_PLATFORM_PROFILE
  | CL_PLATFORM_VERSION
  | CL_PLATFORM_NAME
  | CL_PLATFORM_VENDOR
  | CL_PLATFORM_EXTENSIONS

datatype cl_device_type = CL_DEVICE_TYPE_CPU | CL_DEVICE_TYPE_GPU

text \<open>
  What \<open>Set_Information\<close> reads with \<open>clGetDeviceInfo\<close>: \<open>info_err\<close> is the bitwise
  or of the error codes of its queries, \<open>info_nvidia_err\<close> that of the NVIDIA queries.
  The other capability fields (memory sizes, vector widths, image limits and so on) are
  stored and printed only; no decision reads them and the model leaves them out.
\<close>

record device_info =
  info_err :: cl_int
  info_max_compute_units :: "32 word"
  info_type :: "64 word"
  info_extensions :: string
  info_name :: string
  info_nvidia_err :: cl_int

record environment =
  clGetPlatformIDs :: "cl_int \<times> cl_platform_id list"
  clGetPlatformInfo :: "cl_platform_id \<Rightarrow> cl_platform_info \<Rightarrow> cl_int \<times> string"
  clGetDeviceIDs :: "cl_platform_id \<Rightarrow> cl_device_type \<Rightarrow> cl_int \<times> cl_device_id list"
  clGetDeviceInfo :: "cl_device_id \<Rightarrow> device_info"
  clCreateContext :: "cl_device_id \<Rightarrow> cl_int \<times> cl_context"
  open_fails :: "string \<Rightarrow> bool"
  locked_elsewhere :: "string \<Rightarrow> bool"
  flock_fails :: "string \<Rightarrow> bool"

text \<open>
  What the process changes outside its objects: the descriptors it has open on lock
  files, each holding the lock of its file (\<open>LockFile\<close> closes the descriptor on every
  failure), and the devices on which \<open>clCreateContext\<close> has been called, in call order.
\<close>

record process =
  held_locks :: "(int \<times> string) list"
  context_calls :: "cl_device_id list"

text \<open>
  Modelled from the spec: \<open>OpenCL_Test_Success\<close> is not in the source files at hand; by the
  specification every failure of an API call other than the tolerated
  "device type not found" is fatal.
\<close>

definition OpenCL_Test_Success :: "cl_int \<Rightarrow> bool" where
  "OpenCL_Test_Success err \<longleftrightarrow> err = CL_SUCCESS"

section \<open>LockFile and UnlockFile\<close>

text \<open>
  \<open>open\<close> returns a descriptor that is not in use; the model takes the lowest one above
  the standard streams on which the process holds no lock.
\<close>

definition new_descriptor :: "process \<Rightarrow> int" where
  "new_descriptor s =
     hd (filter (\<lambda>f. f \<notin> fst ` set (held_locks s))
           (map (\<lambda>k. 3 + int k) [0 ..< Suc (length (held_locks s))]))"

datatype flock_result = Flock_Success | EWOULDBLOCK | Other_Errno

text \<open>
  \<open>flock(f, LOCK_EX | LOCK_NB)\<close> on a fresh descriptor of \<open>path\<close>: it would block when
  another open file description holds the lock, of another process or of this one.
\<close>

definition already_locked :: "environment \<Rightarrow> process \<Rightarrow> string \<Rightarrow> bool" where
  "already_locked env s path \<longleftrightarrow> locked_elsewhere env path \<or> path \<in> snd ` set (held_locks s)"

definition flock :: "environment \<Rightarrow> process \<Rightarrow> string \<Rightarrow> flock_result" where
  "flock env s path =
     (if already_locked env s path then EWOULDBLOCK
      else if flock_fails env path then Other_Errno
      else Flock_Success)"

definition LockFile :: "environment \<Rightarrow> string \<Rightarrow> process \<Rightarrow> int \<times> process" where
  "LockFile env path s =
     (if open_fails env path then (- 1, s)
      else let f = new_descriptor s in
        (case flock env s path of
           EWOULDBLOCK \<Rightarrow> (- 1, s)
         | Other_Errno \<Rightarrow> (- 1, s)
         | Flock_Success \<Rightarrow> (f, s\<lparr>held_locks := (f, path) # held_locks s\<rparr>)))"

definition UnlockFile :: "int \<Rightarrow> process \<Rightarrow> process" where
  "UnlockFile f s = s\<lparr>held_locks := filter (\<lambda>(g, p). g \<noteq> f) (held_locks s)\<rparr>"

definition Verify_if_Device_is_Used ::
  "environment \<Rightarrow> int \<Rightarrow> int \<Rightarrow> string \<Rightarrow> string \<Rightarrow> process \<Rightarrow> (error + bool) \<times> process" where
  "Verify_if_Device_is_Used env device_id platform_id_offset platform_name device_name s =
     (case get_lock_filename device_id platform_id_offset platform_name device_name of
        Inl e \<Rightarrow> (Inl e, s)
      | Inr path \<Rightarrow>
          (let (check, s') = LockFile env path s
           in if check = - 1 then (Inr True, s')
              else (Inr False, UnlockFile check s')))"

section \<open>OpenCL_device\<close>

text \<open>
  \<open>parent_platform\<close> is a pointer to the platform that owns the device; \<open>Lock()\<close> reads
  \<open>Id_Offset()\<close> and \<open>Name()\<close> through it. The platform writes both before its device list
  stores the pointer, so the model keeps the two values, and \<open>None\<close> for \<open>NULL\<close>.
  The constructor leaves \<open>lock_file\<close> uninitialised; it is read only while
  \<open>file_locked\<close> holds, that is after \<open>Lock()\<close> has written it.
\<close>

record OpenCL_device =
  object_is_initialized :: bool
  parent_platform :: "(int \<times> string) option"
  dev_name :: string
  dev_id :: int
  device_is_gpu :: bool
  max_compute_units :: "32 word"
  device :: cl_device_id
  dev_context :: cl_context
  dev_type :: "64 word"
  dev_extensions :: string
  is_nvidia :: bool
  device_is_in_use :: bool
  is_lockable :: bool
  lock_file :: int
  file_locked :: bool

definition OpenCL_device_new :: OpenCL_device where
  "OpenCL_device_new =
     \<lparr>object_is_initialized = False, parent_platform = None, dev_name = [], dev_id = - 1,
      device_is_gpu = False, max_compute_units = 0, device = 0, dev_context = 0,
      dev_type = 0, dev_extensions = [], is_nvidia = False, device_is_in_use = False,
      is_lockable = True, lock_file = 0, file_locked = False\<rparr>"

text \<open>
  \<open>std::string::find(pattern) != npos\<close>: the position of the first occurrence. In
  \<open>Set_Information\<close> below, the device types that do not abort are the codes of
  \<open>CL_DEVICE_TYPE_CPU\<close> (2), \<open>CL_DEVICE_TYPE_GPU\<close> (4), \<open>CL_DEVICE_TYPE_ACCELERATOR\<close> (8)
  and \<open>CL_DEVICE_TYPE_DEFAULT\<close> (1) of the OpenCL headers.
\<close>

fun string_find :: "string \<Rightarrow> string \<Rightarrow> nat \<Rightarrow> nat option" where
  "string_find [] pattern pos = (if pattern = [] then Some pos else None)"
| "string_find (c # cs) pattern pos =
     (if prefix pattern (c # cs) then Some pos else string_find cs pattern (Suc pos))"

definition Set_Information ::
  "environment \<Rightarrow> int \<Rightarrow> cl_device_id \<Rightarrow> int \<Rightarrow> string \<Rightarrow> bool \<Rightarrow> OpenCL_device \<Rightarrow> process
     \<Rightarrow> (error + OpenCL_device) \<times> process" where
  "Set_Information env id' device' platform_id_offset platform_name device_is_gpu' d s =
     (let info = clGetDeviceInfo env device';
          d1 = d\<lparr>object_is_initialized := True, dev_id := id', device := device',
                 device_is_gpu := device_is_gpu',
                 max_compute_units := info_max_compute_units info,
                 dev_type := info_type info,
                 dev_extensions := info_extensions info,
                 dev_name := info_name info\<rparr>
      in if \<not> OpenCL_Test_Success (info_err info) then (Inl OpenCL_Error, s)
         else if string_find (dev_extensions d1) ''cl_nv_device_attribute_query'' 0 \<noteq> None
                 \<and> \<not> OpenCL_Test_Success (info_nvidia_err info)
         then (Inl OpenCL_Error, s)
         else let d2 = d1\<lparr>is_nvidia :=
                   (string_find (dev_extensions d1) ''cl_nv_device_attribute_query'' 0 \<noteq> None)\<rparr>
           in if dev_type d2 \<noteq> 2 \<and> dev_type d2 \<noteq> 4 \<and> dev_type d2 \<noteq> 8 \<and> dev_type d2 \<noteq> 1
              then (Inl Unknown_Device_Type, s)
              else (case Verify_if_Device_is_Used env (dev_id d2) platform_id_offset
                           platform_name (dev_name d2) s of
                      (Inl e, s') \<Rightarrow> (Inl e, s')
                    | (Inr used, s') \<Rightarrow> (Inr (d2\<lparr>device_is_in_use := used\<rparr>), s')))"

definition Set_Context ::
  "environment \<Rightarrow> OpenCL_device \<Rightarrow> process \<Rightarrow> cl_int \<times> OpenCL_device \<times> process" where
  "Set_Context env d s =
     (let (err, c) = clCreateContext env (device d)
      in (err, d\<lparr>dev_context := c\<rparr>, s\<lparr>context_calls := context_calls s @ [device d]\<rparr>))"

definition Lock :: "environment \<Rightarrow> OpenCL_device \<Rightarrow> process \<Rightarrow> (error + OpenCL_device) \<times> process" where
  "Lock env d s =
     (case parent_platform d of
        None \<Rightarrow> (Inl Null_Pointer, s)
      | Some (id_offset', name') \<Rightarrow>
          (case get_lock_filename (dev_id d) id_offset' name' (dev_name d) of
             Inl e \<Rightarrow> (Inl e, s)
           | Inr path \<Rightarrow>
               (let (f, s') = LockFile env path s;
                    d' = d\<lparr>lock_file := f\<rparr>
                in if lock_file d' = - 1 then (Inl Lock_Error, s')
                   else (Inr (d'\<lparr>file_locked := True\<rparr>), s'))))"

definition Unlock :: "OpenCL_device \<Rightarrow> process \<Rightarrow> OpenCL_device \<times> process" where
  "Unlock d s =
     (if file_locked d = True
      then (d\<lparr>file_locked := False\<rparr>, UnlockFile (lock_file d) s)
      else (d, s))"

text \<open>Modelled from the spec: the accessor \<open>Is_Lockable()\<close> is declared in the header, which
  is not among the source files; it reads the lockable flag.\<close>

definition Is_Lockable :: "OpenCL_device \<Rightarrow> bool" where
  "Is_Lockable d = is_lockable d"

text \<open>Modelled from the spec: the accessor \<open>Is_In_Use()\<close> of the header reads the in-use
  flag that the probe of \<open>Set_Information\<close> has set.\<close>

definition Is_In_Use :: "OpenCL_device \<Rightarrow> bool" where
  "Is_In_Use d = device_is_in_use d"

text \<open>\<open>OpenCL_device::operator<\<close>; the compute-unit counts are \<open>cl_uint\<close>, compared unsigned.\<close>

definition OpenCL_device_less :: "OpenCL_device \<Rightarrow> OpenCL_device \<Rightarrow> bool" where
  "OpenCL_device_less this other =
     (if device_is_in_use this = False \<and> device_is_in_use other = True then True
      else if device_is_in_use this = True \<and> device_is_in_use other = False then False
      else if max_compute_units this > max_compute_units other then True
      else False)"

section \<open>OpenCL_devices_list\<close>

text \<open>
  \<open>preferred_device\<close> points into \<open>device_list\<close>; the model keeps the position of the
  device in the list, \<open>None\<close> for \<open>NULL\<close>.
\<close>

record OpenCL_devices_list =
  is_initialized :: bool
  nb_cpu :: nat
  nb_gpu :: nat
  device_list :: "OpenCL_device list"
  preferred_device :: "nat option"

definition OpenCL_devices_list_new :: OpenCL_devices_list where
  "OpenCL_devices_list_new =
     \<lparr>is_initialized = False, nb_cpu = 0, nb_gpu = 0, device_list = [], preferred_device = None\<rparr>"

text \<open>Modelled from the spec: \<open>nb_devices()\<close> of the header is the combined count.\<close>

definition nb_devices :: "OpenCL_devices_list \<Rightarrow> nat" where
  "nb_devices l = nb_cpu l + nb_gpu l"

text \<open>
  \<open>device_list.resize(n)\<close>: a longer list loses its tail, whose devices are destroyed
  (the destructor releases the context and calls \<open>Unlock()\<close>); a shorter one is filled
  with newly constructed devices.
\<close>

definition destroy_devices :: "OpenCL_device list \<Rightarrow> process \<Rightarrow> process" where
  "destroy_devices ds s = fold (\<lambda>d s'. snd (Unlock d s')) ds s"

definition resize :: "nat \<Rightarrow> OpenCL_device list \<Rightarrow> process \<Rightarrow> OpenCL_device list \<times> process" where
  "resize n ds s =
     (take n ds @ replicate (n - length ds) OpenCL_device_new, destroy_devices (drop n ds) s)"

text \<open>
  The two loops \<open>for (unsigned int i = 0; i < nb; ++i, ++it)\<close> of \<open>Initialize\<close>: \<open>first\<close>
  is 0 for the CPUs and \<open>nb_cpu\<close> for the GPUs, \<open>it\<close> the position of the iterator.
  The counts are those of the arrays the API has filled, far below the range of \<open>int\<close>,
  so the conversion of \<open>first + i\<close> to the \<open>int\<close> parameter keeps its value.
\<close>

function add_devices ::
  "environment \<Rightarrow> int \<Rightarrow> string \<Rightarrow> bool \<Rightarrow> nat \<Rightarrow> cl_device_id list \<Rightarrow> nat \<Rightarrow> nat
     \<Rightarrow> OpenCL_device list \<Rightarrow> bool \<Rightarrow> process
     \<Rightarrow> (error + OpenCL_device list \<times> bool) \<times> process" where
  "add_devices env id_offset' name' gpu first tmp_devices i it dl is_all_devices_in_use s =
     (if i < length tmp_devices
      then (case Set_Information env (int (first + i)) (tmp_devices ! i) id_offset' name' gpu
                   (dl ! it) s of
              (Inl e, s') \<Rightarrow> (Inl e, s')
            | (Inr d, s') \<Rightarrow>
                add_devices env id_offset' name' gpu first tmp_devices (Suc i) (Suc it)
                  (dl[it := d]) (if \<not> Is_In_Use d then False else is_all_devices_in_use) s')
      else (Inr (dl, is_all_devices_in_use), s))"
  by pat_completeness auto
termination
  by (relation "measure (\<lambda>(env, off, name', gpu, first, tmp, i, rest). length tmp - i)") auto

declare add_devices.simps [simp del]

text \<open>
  Each of the two blocks \<open>if (nb >= 1) { ... }\<close> of \<open>Initialize\<close>: the array of the
  device handles is fetched, which is fatal when it fails, and the loop runs over it.
\<close>

definition add_block ::
  "environment \<Rightarrow> int \<Rightarrow> string \<Rightarrow> bool \<Rightarrow> nat \<Rightarrow> cl_int \<Rightarrow> cl_device_id list \<Rightarrow> nat
     \<Rightarrow> OpenCL_device list \<Rightarrow> bool \<Rightarrow> process
     \<Rightarrow> (error + OpenCL_device list \<times> bool) \<times> process" where
  "add_block env id_offset' name' gpu first err tmp_devices it dl is_all_devices_in_use s =
     (if length tmp_devices \<ge> 1
      then (if \<not> OpenCL_Test_Success err then (Inl OpenCL_Error, s)
            else add_devices env id_offset' name' gpu first tmp_devices 0 it dl
                   is_all_devices_in_use s)
      else (Inr (dl, is_all_devices_in_use), s))"

text \<open>
  The first part of \<open>Initialize\<close>, up to \<open>assert(it == device_list.end())\<close>: the counts,
  the resized list, and the CPUs and then the GPUs written into it. The iterator has
  moved once for each device, so at the assertion it stands at \<open>nb_cpu + nb_gpu\<close>.
\<close>

definition enumerate_devices ::
  "environment \<Rightarrow> cl_platform_id \<Rightarrow> int \<Rightarrow> string \<Rightarrow> OpenCL_devices_list \<Rightarrow> process
     \<Rightarrow> (error + OpenCL_devices_list \<times> bool) \<times> process" where
  "enumerate_devices env platform_id' id_offset' name' l s =
     (let (err_gpu, gpus) = clGetDeviceIDs env platform_id' CL_DEVICE_TYPE_GPU;
          (err_cpu, cpus) = clGetDeviceIDs env platform_id' CL_DEVICE_TYPE_CPU
      in if \<not> OpenCL_Test_Success (if err_gpu = CL_DEVICE_NOT_FOUND then CL_SUCCESS else err_gpu)
         then (Inl OpenCL_Error, s)
         else if \<not> OpenCL_Test_Success (if err_cpu = CL_DEVICE_NOT_FOUND then CL_SUCCESS else err_cpu)
         then (Inl OpenCL_Error, s)
         else let l1 = l\<lparr>nb_gpu := length gpus, nb_cpu := length cpus\<rparr>
           in if \<not> nb_devices l1 \<ge> 1 then (Inl Assertion_Failed, s)
              else let (dl0, s0) = resize (nb_devices l1) (device_list l1) s
                in (case add_block env id_offset' name' False 0 err_cpu cpus 0 dl0 True s0 of
                      (Inl e, s1) \<Rightarrow> (Inl e, s1)
                    | (Inr (dl1, all1), s1) \<Rightarrow>
                        (case add_block env id_offset' name' True (nb_cpu l1) err_gpu gpus
                                (nb_cpu l1) dl1 all1 s1 of
                           (Inl e, s2) \<Rightarrow> (Inl e, s2)
                         | (Inr (dl2, all2), s2) \<Rightarrow>
                             (if nb_cpu l1 + nb_gpu l1 \<noteq> length dl2
                              then (Inl Assertion_Failed, s2)
                              else (Inr (l1\<lparr>device_list := dl2\<rparr>, all2), s2)))))"

text \<open>
  \<open>device_list.sort()\<close>: \<open>std::list::sort\<close> is library code; the C++ standard requires it to
  order the list by \<open>operator<\<close> and to keep the relative order of equivalent elements.
  The model is the stable insertion sort: an element goes in front of the first one it
  is less than.
\<close>

fun sort_insert :: "OpenCL_device \<Rightarrow> OpenCL_device list \<Rightarrow> OpenCL_device list" where
  "sort_insert d [] = [d]"
| "sort_insert d (x # xs) = (if OpenCL_device_less d x then d # x # xs
                             else x # sort_insert d xs)"

definition list_sort :: "OpenCL_device list \<Rightarrow> OpenCL_device list" where
  "list_sort ds = fold sort_insert ds []"

text \<open>
  The loop that tries \<open>Set_Context()\<close> on each device from the front of the list and
  stops at the first success.
\<close>

function set_context_loop ::
  "environment \<Rightarrow> nat \<Rightarrow> OpenCL_device list \<Rightarrow> process
     \<Rightarrow> nat option \<times> OpenCL_device list \<times> process" where
  "set_context_loop env it dl s =
     (if it < length dl
      then (case Set_Context env (dl ! it) s of
              (err, d, s') \<Rightarrow>
                if err = CL_SUCCESS then (Some it, dl[it := d], s')
                else set_context_loop env (Suc it) (dl[it := d]) s')
      else (None, dl, s))"
  by pat_completeness auto
termination
  by (relation "measure (\<lambda>(env, it, dl, s). length dl - it)") auto

declare set_context_loop.simps [simp del]

text \<open>The loop that stores in each device the pointer to its parent platform.\<close>

definition store_parent_platform :: "int \<Rightarrow> string \<Rightarrow> OpenCL_device list \<Rightarrow> OpenCL_device list" where
  "store_parent_platform id_offset' name' dl =
     map (\<lambda>d. d\<lparr>parent_platform := Some (id_offset', name')\<rparr>) dl"

definition OpenCL_devices_list_Initialize ::
  "environment \<Rightarrow> cl_platform_id \<Rightarrow> int \<Rightarrow> string \<Rightarrow> OpenCL_devices_list \<Rightarrow> process
     \<Rightarrow> (error + OpenCL_devices_list) \<times> process" where
  "OpenCL_devices_list_Initialize env platform_id' id_offset' name' l s =
     (case enumerate_devices env platform_id' id_offset' name' l s of
        (Inl e, s1) \<Rightarrow> (Inl e, s1)
      | (Inr (l1, is_all_devices_in_use), s1) \<Rightarrow>
          if is_all_devices_in_use = True then (Inl All_Devices_In_Use, s1)
          else let dl2 = store_parent_platform id_offset' name' (device_list l1);
                   dl3 = list_sort dl2
            in (case set_context_loop env 0 dl3 s1 of
                  (None, dl4, s2) \<Rightarrow> (Inl Cannot_Set_Context, s2)
                | (Some i, dl4, s2) \<Rightarrow>
                    (Inr (l1\<lparr>device_list := dl4, preferred_device := Some i,
                              is_initialized := True\<rparr>), s2)))"

definition Prefered_OpenCL :: "OpenCL_devices_list \<Rightarrow> error + OpenCL_device" where
  "Prefered_OpenCL l =
     (case preferred_device l of
        None \<Rightarrow> Inl No_Device_Present
      | Some i \<Rightarrow> Inr (device_list l ! i))"

section \<open>OpenCL_platform\<close>

record OpenCL_platform =
  key :: string
  id_offset :: int
  platform_id :: cl_platform_id
  platform_vendor :: string
  platform_name :: string
  platform_version :: string
  platform_extensions :: string
  platform_profile :: string
  devices_list :: OpenCL_devices_list

definition OpenCL_platform_new :: OpenCL_platform where
  "OpenCL_platform_new =
     \<lparr>key = [], id_offset = 0, platform_id = 0, platform_vendor = ''Not set'',
      platform_name = ''Not set'', platform_version = ''Not set'',
      platform_extensions = ''Not set'', platform_profile = ''Not set'',
      devices_list = OpenCL_devices_list_new\<rparr>"

definition OpenCL_platform_Initialize ::
  "environment \<Rightarrow> string \<Rightarrow> int \<Rightarrow> cl_platform_id \<Rightarrow> string \<Rightarrow> OpenCL_platform \<Rightarrow> process
     \<Rightarrow> (error + OpenCL_platform) \<times> process" where
  "OpenCL_platform_Initialize env key' id_offset' id' preferred_platform' p s =
     (let p0 = p\<lparr>key := key', id_offset := id_offset', platform_id := id'\<rparr>;
          (e1, profile') = clGetPlatformInfo env id' CL_PLATFORM_PROFILE;
          (e2, version') = clGetPlatformInfo env id' CL_PLATFORM_VERSION;
          (e3, name') = clGetPlatformInfo env id' CL_PLATFORM_NAME;
          (e4, vendor') = clGetPlatformInfo env id' CL_PLATFORM_VENDOR;
          (e5, extensions') = clGetPlatformInfo env id' CL_PLATFORM_EXTENSIONS
      in if \<not> OpenCL_Test_Success e1 then (Inl OpenCL_Error, s)
         else if \<not> OpenCL_Test_Success e2 then (Inl OpenCL_Error, s)
         else if \<not> OpenCL_Test_Success e3 then (Inl OpenCL_Error, s)
         else if \<not> OpenCL_Test_Success e4 then (Inl OpenCL_Error, s)
         else if \<not> OpenCL_Test_Success e5 then (Inl OpenCL_Error, s)
         else let p1 = p0\<lparr>platform_profile := profile', platform_version := version',
                          platform_name := name', platform_vendor := vendor',
                          platform_extensions := extensions'\<rparr>
           in (case OpenCL_devices_list_Initialize env (platform_id p1) (id_offset p1)
                       (platform_name p1) (devices_list p1) s of
                 (Inl e, s') \<Rightarrow> (Inl e, s')
               | (Inr l, s') \<Rightarrow> (Inr (p1\<lparr>devices_list := l\<rparr>), s')))"

text \<open>
  \<open>Lock_Best_Device\<close>: \<open>Prefered_OpenCL()\<close> aborts when there is no preferred device;
  \<open>Lock()\<close> then works on the device inside the list.
\<close>

definition Lock_Best_Device ::
  "environment \<Rightarrow> OpenCL_platform \<Rightarrow> process \<Rightarrow> (error + OpenCL_platform) \<times> process" where
  "Lock_Best_Device env p s =
     (case Prefered_OpenCL (devices_list p) of
        Inl e \<Rightarrow> (Inl e, s)
      | Inr d \<Rightarrow>
          if Is_Lockable d
          then (case Lock env d s of
                  (Inl e, s') \<Rightarrow> (Inl e, s')
                | (Inr d', s') \<Rightarrow>
                    (Inr (p\<lparr>devices_list := (devices_list p)
                            \<lparr>device_list := (device_list (devices_list p))
                                [the (preferred_device (devices_list p)) := d']\<rparr>\<rparr>), s'))
          else (Inr p, s))"

text \<open>
  The devices that the operations of \<open>OpenCL_device\<close> produce from a newly constructed
  one: \<open>Set_Information\<close>, the assignment of \<open>parent_platform\<close> (a public member),
  \<open>Set_Context\<close>, \<open>Lock\<close> and \<open>Unlock\<close>, in any order, with any arguments and in any
  state of the process.
\<close>

inductive device_reachable :: "environment \<Rightarrow> OpenCL_device \<Rightarrow> bool" for env :: environment where
  constructed: "device_reachable env OpenCL_device_new"
| after_Set_Information:
    "device_reachable env d \<Longrightarrow>
     Set_Information env id' device' platform_id_offset platform_name' gpu d s = (Inr d', s')
     \<Longrightarrow> device_reachable env d'"
| after_parent_platform:
    "device_reachable env d \<Longrightarrow> device_reachable env (d\<lparr>parent_platform := parent\<rparr>)"
| after_Set_Context:
    "device_reachable env d \<Longrightarrow> Set_Context env d s = (err, d', s') \<Longrightarrow> device_reachable env d'"
| after_Lock:
    "device_reachable env d \<Longrightarrow> Lock env d s = (Inr d', s') \<Longrightarrow> device_reachable env d'"
| after_Unlock:
    "device_reachable env d \<Longrightarrow> Unlock d s = (d', s') \<Longrightarrow> device_reachable env d'"

section \<open>OpenCL_platforms_list\<close>

text \<open>
  Modelled from the spec: the keys \<open>OPENCL_PLATFORMS_NVIDIA\<close>, \<open>..._AMD\<close>, \<open>..._INTEL\<close> and
  \<open>..._APPLE\<close> are macros of the header, which is not among the source files; their
  values are the platform names that the example program documents.
\<close>

definition OPENCL_PLATFORMS_NVIDIA :: string where
  "OPENCL_PLATFORMS_NVIDIA = ''nvidia''"

definition OPENCL_PLATFORMS_AMD :: string where
  "OPENCL_PLATFORMS_AMD = ''amd''"

definition OPENCL_PLATFORMS_INTEL :: string where
  "OPENCL_PLATFORMS_INTEL = ''intel''"

definition OPENCL_PLATFORMS_APPLE :: string where
  "OPENCL_PLATFORMS_APPLE = ''apple''"

text \<open>\<open>tolower\<close> in the "C" locale: the 26 capital letters of ASCII move by 32.\<close>

definition tolower :: "char \<Rightarrow> char" where
  "tolower c = (let n = (of_char c :: nat) in if 65 \<le> n \<and> n \<le> 90 then char_of (n + 32) else c)"

text \<open>The classification of a vendor string in the loop of \<open>Initialize\<close>.\<close>

definition platform_vendor_key :: "string \<Rightarrow> error + string" where
  "platform_vendor_key tmp_string =
     (let platform_vendor' = map tolower tmp_string
      in if string_find platform_vendor' ''nvidia'' 0 \<noteq> None then Inr OPENCL_PLATFORMS_NVIDIA
         else if string_find platform_vendor' ''advanced micro devices'' 0 \<noteq> None
                 \<or> string_find platform_vendor' ''amd'' 0 \<noteq> None
         then Inr OPENCL_PLATFORMS_AMD
         else if string_find platform_vendor' ''intel'' 0 \<noteq> None then Inr OPENCL_PLATFORMS_INTEL
         else if string_find platform_vendor' ''apple'' 0 \<noteq> None then Inr OPENCL_PLATFORMS_APPLE
         else Inl Unknown_Platform)"

text \<open>
  \<open>platforms\<close> is a \<open>std::map\<close> from keys to platforms: the model is the list of its
  entries in key order. \<open>map_subscript\<close> is \<open>platforms[key]\<close>, which enters a newly
  constructed platform under a key that is absent; \<open>map_store\<close> writes the platform back.
\<close>

definition map_subscript :: "(string \<times> OpenCL_platform) list \<Rightarrow> string \<Rightarrow> OpenCL_platform" where
  "map_subscript m k = (case map_of m k of None \<Rightarrow> OpenCL_platform_new | Some p \<Rightarrow> p)"

fun map_store ::
  "string \<Rightarrow> OpenCL_platform \<Rightarrow> (string \<times> OpenCL_platform) list \<Rightarrow> (string \<times> OpenCL_platform) list" where
  "map_store k p [] = [(k, p)]"
| "map_store k p ((k', p') # m) =
     (if k = k' then (k, p) # m
      else if k < k' then (k, p) # (k', p') # m
      else (k', p') # map_store k p m)"

record OpenCL_platforms_list =
  platforms :: "(string \<times> OpenCL_platform) list"
  preferred_platform :: string

text \<open>The classification of a platform: that of the vendor string the API returns for it.\<close>

definition vendor_key_of :: "environment \<Rightarrow> cl_platform_id \<Rightarrow> error + string" where
  "vendor_key_of env platform =
     platform_vendor_key (snd (clGetPlatformInfo env platform CL_PLATFORM_VENDOR))"

text \<open>
  One round of the loop \<open>for (unsigned int i = 0; i < nb_platforms; i++)\<close>: the vendor is
  queried and classified, and the platform stored under its key is initialised with the
  handle and the offset of the round.
\<close>

definition platform_round ::
  "environment \<Rightarrow> string \<Rightarrow> cl_platform_id \<Rightarrow> int \<Rightarrow> (string \<times> OpenCL_platform) list \<Rightarrow> process
     \<Rightarrow> (error + (string \<times> OpenCL_platform) list) \<times> process" where
  "platform_round env preferred_platform' tmp_platform_id platform_id_offset m s =
     (let (err, tmp_string) = clGetPlatformInfo env tmp_platform_id CL_PLATFORM_VENDOR
      in if \<not> OpenCL_Test_Success err then (Inl OpenCL_Error, s)
         else (case platform_vendor_key tmp_string of
                 Inl e \<Rightarrow> (Inl e, s)
               | Inr key' \<Rightarrow>
                   (case OpenCL_platform_Initialize env key' platform_id_offset tmp_platform_id
                           preferred_platform' (map_subscript m key') s of
                      (Inl e, s') \<Rightarrow> (Inl e, s')
                    | (Inr p, s') \<Rightarrow> (Inr (map_store key' p m), s'))))"

text \<open>The loop with its counter \<open>platform_id_offset\<close>, which starts at 0 and is incremented
  at the end of each round.\<close>

function platforms_loop ::
  "environment \<Rightarrow> string \<Rightarrow> cl_platform_id list \<Rightarrow> nat \<Rightarrow> int
     \<Rightarrow> (string \<times> OpenCL_platform) list \<Rightarrow> process
     \<Rightarrow> (error + (string \<times> OpenCL_platform) list) \<times> process" where
  "platforms_loop env preferred_platform' tmp_platforms i platform_id_offset m s =
     (if i < length tmp_platforms
      then (case platform_round env preferred_platform' (tmp_platforms ! i) platform_id_offset m s of
              (Inl e, s') \<Rightarrow> (Inl e, s')
            | (Inr m', s') \<Rightarrow>
                platforms_loop env preferred_platform' tmp_platforms (Suc i)
                  (platform_id_offset + 1) m' s')
      else (Inr m, s))"
  by pat_completeness auto
termination
  by (relation "measure (\<lambda>(env, pref, tmp, i, rest). length tmp - i)") auto

declare platforms_loop.simps [simp del]

text \<open>
  The loop as the specification words it: the platforms are taken in discovery order,
  each with its 0-based index in that order as its offset, whatever its vendor key.
\<close>

fun spec_platforms_loop ::
  "environment \<Rightarrow> string \<Rightarrow> (cl_platform_id \<times> nat) list
     \<Rightarrow> (string \<times> OpenCL_platform) list \<Rightarrow> process
     \<Rightarrow> (error + (string \<times> OpenCL_platform) list) \<times> process" where
  "spec_platforms_loop env preferred_platform' [] m s = (Inr m, s)"
| "spec_platforms_loop env preferred_platform' ((platform, index) # rest) m s =
     (case platform_round env preferred_platform' platform (int index) m s of
        (Inl e, s') \<Rightarrow> (Inl e, s')
      | (Inr m', s') \<Rightarrow> spec_platforms_loop env preferred_platform' rest m' s')"

text \<open>Lower-casing as the specification words it: a capital letter of ASCII becomes the
  small letter at the same place of the alphabet, any other character stays.\<close>

definition ascii_lower :: "char \<Rightarrow> char" where
  "ascii_lower c =
     (case map_of (zip ''ABCDEFGHIJKLMNOPQRSTUVWXYZ'' ''abcdefghijklmnopqrstuvwxyz'') c of
        None \<Rightarrow> c
      | Some l \<Rightarrow> l)"

definition OpenCL_platforms_list_Initialize ::
  "environment \<Rightarrow> string \<Rightarrow> OpenCL_platforms_list \<Rightarrow> process
     \<Rightarrow> (error + OpenCL_platforms_list) \<times> process" where
  "OpenCL_platforms_list_Initialize env prefered_platform pl s =
     (let pl1 = pl\<lparr>preferred_platform := prefered_platform\<rparr>;
          (err, tmp_platforms) = clGetPlatformIDs env
      in if \<not> OpenCL_Test_Success err then (Inl OpenCL_Error, s)
         else if length tmp_platforms = 0 then (Inl No_Platform_Found, s)
         else (case platforms_loop env (preferred_platform pl1) tmp_platforms 0 0
                      (platforms pl1) s of
                 (Inl e, s') \<Rightarrow> (Inl e, s')
               | (Inr m, s') \<Rightarrow>
                   (Inr (pl1\<lparr>platforms := m,
                             preferred_platform :=
                               (if preferred_platform pl1 = ''-1'' \<or> preferred_platform pl1 = []
                                then fst (hd m) else preferred_platform pl1)\<rparr>), s')))"

section \<open>A platform to run the model on\<close>

text \<open>
  One platform of vendor "NVIDIA Corporation" with the handle 7 and the name "P". It has
  one CPU (handle 10, name "c", 4 compute units) and two GPUs: handle 20, name "g", 16
  compute units, and handle 21, name "h", 32 compute units. Another process holds the
  lock of the second GPU. \<open>clCreateContext\<close> fails on the first GPU (with
  \<open>CL_DEVICE_NOT_AVAILABLE\<close>) and succeeds on the other devices.
\<close>

definition example_env :: environment where
  "example_env =
     \<lparr>clGetPlatformIDs = (0, [7]),
      clGetPlatformInfo =
        (\<lambda>p i. (0, if i = CL_PLATFORM_VENDOR then ''NVIDIA Corporation'' else ''P'')),
      clGetDeviceIDs = (\<lambda>p t. (0, if t = CL_DEVICE_TYPE_CPU then [10] else [20, 21])),
      clGetDeviceInfo =
        (\<lambda>d. \<lparr>info_err = 0,
               info_max_compute_units = (if d = 10 then 4 else if d = 20 then 16 else 32),
               info_type = (if d = 10 then 2 else 4),
               info_extensions = [],
               info_name = (if d = 10 then ''c'' else if d = 20 then ''g'' else ''h''),
               info_nvidia_err = 0\<rparr>),
      clCreateContext = (\<lambda>d. if d = 20 then (- 2, 0) else (0, 100 + d)),
      open_fails = (\<lambda>path. False),
      locked_elsewhere = (\<lambda>path. path = ''/tmp/gpuPlatform__0__Device__2__P__h_.lck''),
      flock_fails = (\<lambda>path. False)\<rparr>"

definition start :: process where
  "start = \<lparr>held_locks = [], context_calls = []\<rparr>"

text \<open>The same platform when the lock files cannot be opened, and when another process
  holds every lock.\<close>

definition unopenable_env :: environment where
  "unopenable_env = example_env\<lparr>open_fails := (\<lambda>path. True), locked_elsewhere := (\<lambda>path. False)\<rparr>"

definition busy_env :: environment where
  "busy_env = example_env\<lparr>locked_elsewhere := (\<lambda>path. True)\<rparr>"

text \<open>A device of that platform as the constructor and the discovery leave it.\<close>

definition example_device :: OpenCL_device where
  "example_device =
     OpenCL_device_new\<lparr>object_is_initialized := True, parent_platform := Some (0, ''P''),
                       dev_name := ''c'', dev_id := 0, max_compute_units := 4, device := 10,
                       dev_type := 2\<rparr>"

text \<open>The three devices of the example platform as the discovery leaves them.\<close>

definition example_cpu :: OpenCL_device where
  "example_cpu = example_device"

definition example_gpu0 :: OpenCL_device where
  "example_gpu0 =
     example_device\<lparr>dev_name := ''g'', dev_id := 1, device_is_gpu := True,
                    max_compute_units := 16, device := 20, dev_type := 4\<rparr>"

definition example_gpu1 :: OpenCL_device where
  "example_gpu1 =
     example_device\<lparr>dev_name := ''h'', dev_id := 2, device_is_gpu := True,
                    max_compute_units := 32, device := 21, dev_type := 4,
                    device_is_in_use := True\<rparr>"

text \<open>The same platform when no device accepts a context.\<close>

definition failing_env :: environment where
  "failing_env = example_env\<lparr>clCreateContext := (\<lambda>d. (- 2, 0))\<rparr>"

text \<open>Two platforms of the same vendor, with the handles 7 and 8, and a platform of a
  vendor that the library does not know.\<close>

definition twin_env :: environment where
  "twin_env = example_env\<lparr>clGetPlatformIDs := (0, [7, 8])\<rparr>"

definition unknown_vendor_env :: environment where
  "unknown_vendor_env =
     example_env\<lparr>clGetPlatformInfo :=
        (\<lambda>p i. (0, if i = CL_PLATFORM_VENDOR then ''Portable Computing Language'' else ''P''))\<rparr>"

definition OpenCL_platforms_list_new :: OpenCL_platforms_list where
  "OpenCL_platforms_list_new = \<lparr>platforms = [], preferred_platform = []\<rparr>"

section \<open>Lock file names: the loop against the specification\<close>

lemma ascii_letter_or_digit_iff: "ascii_letter_or_digit c \<longleftrightarrow> isalpha c \<or> isdigit c"
  by (cases c) (simp add: ascii_letter_or_digit_def isalpha_def isdigit_def Let_def)

lemma replace_non_alnum_eq:
  "len = length t \<Longrightarrow> i \<le> len \<Longrightarrow>
   replace_non_alnum i len t = take i t @ map underscore (drop i t)"
proof (induction i len t rule: replace_non_alnum.induct)
  case (1 i len t)
  show ?case
  proof (cases "i < len")
    case True
    define t' where "t' = (if \<not> isalpha (t ! i) \<and> \<not> isdigit (t ! i) then t[i := CHR ''_''] else t)"
    have t': "t' = t[i := underscore (t ! i)]"
      by (simp add: t'_def underscore_def)
    have len': "len = length t'" using 1(2) by (simp add: t')
    have "replace_non_alnum i len t = replace_non_alnum (Suc i) len t'"
      using True by (subst replace_non_alnum.simps) (simp add: t'_def)
    also have "\<dots> = take (Suc i) t' @ map underscore (drop (Suc i) t')"
      using 1(1)[OF True len'[unfolded t'_def]] True by (simp add: t'_def)
    also have "\<dots> = take i t @ map underscore (drop i t)"
      using True 1(2)
      by (simp add: t' take_Suc_conv_app_nth Cons_nth_drop_Suc [symmetric])
    finally show ?thesis .
  next
    case False
    then show ?thesis using 1(2,3) by (subst replace_non_alnum.simps) simp
  qed
qed

lemma underscore_spec: "underscore = (\<lambda>c. if ascii_letter_or_digit c then c else CHR ''_'')"
  by (rule ext) (simp add: underscore_def ascii_letter_or_digit_iff)

lemma get_lock_filename_fits:
  assumes "length (string_base off dev pn dn) \<le> 4095"
  shows "get_lock_filename dev off pn dn = Inr (spec_lock_path off dev pn dn)"
  using assms
  by (simp add: get_lock_filename_def Let_def replace_non_alnum_eq underscore_spec
      spec_lock_path_def string_base_def)

section \<open>The order of the devices\<close>

lemma OpenCL_device_less_iff:
  "OpenCL_device_less a b \<longleftrightarrow>
     (\<not> device_is_in_use a \<and> device_is_in_use b)
     \<or> (device_is_in_use a = device_is_in_use b \<and> max_compute_units b < max_compute_units a)"
  by (auto simp: OpenCL_device_less_def)

lemma OpenCL_device_less_trans:
  "OpenCL_device_less a b \<Longrightarrow> OpenCL_device_less b c \<Longrightarrow> OpenCL_device_less a c"
  by (auto simp: OpenCL_device_less_iff)

lemma set_sort_insert: "set (sort_insert d xs) = insert d (set xs)"
  by (induction xs) auto

lemma mset_sort_insert: "mset (sort_insert d xs) = add_mset d (mset xs)"
  by (induction xs) auto

lemma sorted_sort_insert:
  "sorted_wrt (\<lambda>a b. \<not> OpenCL_device_less b a) xs
   \<Longrightarrow> sorted_wrt (\<lambda>a b. \<not> OpenCL_device_less b a) (sort_insert d xs)"
proof (induction xs)
  case Nil
  show ?case by simp
next
  case (Cons x xs)
  show ?case
  proof (cases "OpenCL_device_less d x")
    case True
    have "\<not> OpenCL_device_less x d"
      using True by (auto simp: OpenCL_device_less_iff)
    moreover have "\<forall>y\<in>set xs. \<not> OpenCL_device_less y d"
      using Cons.prems True by (auto dest: OpenCL_device_less_trans)
    ultimately show ?thesis using True Cons.prems by simp
  next
    case False
    then show ?thesis using Cons by (auto simp: set_sort_insert)
  qed
qed

lemma fold_sort_insert_mset: "mset (fold sort_insert ds acc) = mset ds + mset acc"
  by (induction ds arbitrary: acc) (auto simp: mset_sort_insert)

lemma fold_sort_insert_sorted:
  "sorted_wrt (\<lambda>a b. \<not> OpenCL_device_less b a) acc
   \<Longrightarrow> sorted_wrt (\<lambda>a b. \<not> OpenCL_device_less b a) (fold sort_insert ds acc)"
  by (induction ds arbitrary: acc) (auto simp: sorted_sort_insert)

lemma mset_list_sort: "mset (list_sort ds) = mset ds"
  by (simp add: list_sort_def fold_sort_insert_mset)

lemma sorted_list_sort: "sorted_wrt (\<lambda>a b. \<not> OpenCL_device_less b a) (list_sort ds)"
  by (simp add: list_sort_def fold_sort_insert_sorted)

lemma length_list_sort: "length (list_sort ds) = length ds"
  using mset_list_sort [of ds] by (metis size_mset)

lemma set_list_sort: "set (list_sort ds) = set ds"
  using mset_list_sort [of ds] by (metis set_mset_mset)

lemma sorted_order:
  assumes "sorted_wrt (\<lambda>a b. \<not> OpenCL_device_less b a) xs" "i < j" "j < length xs"
  shows "(\<not> device_is_in_use (xs ! j) \<longrightarrow> \<not> device_is_in_use (xs ! i))
       \<and> (device_is_in_use (xs ! i) = device_is_in_use (xs ! j)
            \<longrightarrow> max_compute_units (xs ! j) \<le> max_compute_units (xs ! i))"
proof -
  have "\<not> OpenCL_device_less (xs ! j) (xs ! i)"
    using assms by (simp add: sorted_wrt_iff_nth_less)
  then show ?thesis
    by (auto simp: OpenCL_device_less_iff)
qed

section \<open>Locking and unlocking a file\<close>

lemma new_descriptor_fresh:
  "new_descriptor s \<notin> fst ` set (held_locks s) \<and> 3 \<le> new_descriptor s"
proof -
  define cands where "cands = map (\<lambda>k. 3 + int k) [0 ..< Suc (length (held_locks s))]"
  define used where "used = fst ` set (held_locks s)"
  have d: "distinct cands"
    by (simp add: cands_def distinct_map inj_on_def del: upt_Suc)
  have "card used \<le> length (held_locks s)"
    unfolding used_def by (metis card_image_le card_length le_trans List.finite_set)
  moreover have "card (set cands) = Suc (length (held_locks s))"
    using distinct_card [OF d] by (simp add: cands_def del: upt_Suc)
  ultimately have "\<not> set cands \<subseteq> used"
    by (metis card_mono used_def finite_imageI List.finite_set not_less_eq_eq)
  then have ne: "filter (\<lambda>f. f \<notin> used) cands \<noteq> []"
    by (auto simp: filter_empty_conv)
  have "hd (filter (\<lambda>f. f \<notin> used) cands) \<in> set (filter (\<lambda>f. f \<notin> used) cands)"
    using ne by (rule hd_in_set)
  then have "hd (filter (\<lambda>f. f \<notin> used) cands) \<notin> used \<and> hd (filter (\<lambda>f. f \<notin> used) cands) \<in> set cands"
    by simp
  moreover have "\<forall>f\<in>set cands. 3 \<le> f"
    by (auto simp: cands_def)
  ultimately show ?thesis
    unfolding new_descriptor_def cands_def used_def by blast
qed

lemma LockFile_cases:
  "LockFile env path s =
     (if open_fails env path \<or> flock env s path \<noteq> Flock_Success then (- 1, s)
      else (new_descriptor s, s\<lparr>held_locks := (new_descriptor s, path) # held_locks s\<rparr>))"
  by (cases "flock env s path") (simp_all add: LockFile_def Let_def)

lemma LockFile_fails_iff:
  "fst (LockFile env path s) = - 1 \<longleftrightarrow> open_fails env path \<or> flock env s path \<noteq> Flock_Success"
  using new_descriptor_fresh [of s] by (simp add: LockFile_cases)

lemma UnlockFile_new_descriptor:
  "UnlockFile (new_descriptor s) (s\<lparr>held_locks := (new_descriptor s, path) # held_locks s\<rparr>) = s"
proof -
  have "filter (\<lambda>(g, p). g \<noteq> new_descriptor s) (held_locks s) = held_locks s"
    using new_descriptor_fresh [of s] by (force simp: filter_id_conv)
  then show ?thesis by (simp add: UnlockFile_def)
qed

lemma Verify_if_Device_is_Used_path:
  "get_lock_filename dev off pn dn = Inr path \<Longrightarrow>
   Verify_if_Device_is_Used env dev off pn dn s
     = (Inr (open_fails env path \<or> flock env s path \<noteq> Flock_Success), s)"
  using new_descriptor_fresh [of s]
  by (auto simp: Verify_if_Device_is_Used_def LockFile_cases UnlockFile_new_descriptor)

lemma Verify_if_Device_is_Used_state:
  "snd (Verify_if_Device_is_Used env dev off pn dn s) = s"
  by (cases "get_lock_filename dev off pn dn")
     (simp_all add: Verify_if_Device_is_Used_path, simp add: Verify_if_Device_is_Used_def)

lemma Lock_cases:
  "parent_platform d = Some (off, pn) \<Longrightarrow> get_lock_filename (dev_id d) off pn (dev_name d) = Inr path \<Longrightarrow>
   Lock env d s =
     (if open_fails env path \<or> flock env s path \<noteq> Flock_Success then (Inl Lock_Error, s)
      else (Inr (d\<lparr>lock_file := new_descriptor s, file_locked := True\<rparr>),
            s\<lparr>held_locks := (new_descriptor s, path) # held_locks s\<rparr>))"
  using new_descriptor_fresh [of s]
  by (auto simp: Lock_def LockFile_cases)

section \<open>The example platform: lock paths\<close>

lemmas path_eval = string_base_def percent_d_def decimal_nat.simps digit_char_def
  spec_lock_path_def ascii_letter_or_digit_def

lemma example_path_c: "get_lock_filename 0 0 ''P'' ''c'' = Inr ''/tmp/gpuPlatform__0__Device__0__P__c_.lck''"
  by (subst get_lock_filename_fits) (simp_all add: path_eval)

lemma example_path_g: "get_lock_filename 1 0 ''P'' ''g'' = Inr ''/tmp/gpuPlatform__0__Device__1__P__g_.lck''"
  by (subst get_lock_filename_fits) (simp_all add: path_eval)

lemma example_path_h: "get_lock_filename 2 0 ''P'' ''h'' = Inr ''/tmp/gpuPlatform__0__Device__2__P__h_.lck''"
  by (subst get_lock_filename_fits) (simp_all add: path_eval)

lemma example_device_Lock:
  "Lock example_env example_device start
     = (Inr (example_device\<lparr>lock_file := 3, file_locked := True\<rparr>),
        start\<lparr>held_locks := [(3, ''/tmp/gpuPlatform__0__Device__0__P__c_.lck'')]\<rparr>)"
  by (simp add: Lock_def example_device_def example_path_c LockFile_def flock_def already_locked_def
      example_env_def start_def new_descriptor_def Let_def OpenCL_device_new_def)

section \<open>Discovery of the devices\<close>

lemma Set_Information_state: "snd (Set_Information env i dev off nm gpu d s) = s"
proof -
  have "snd (case Verify_if_Device_is_Used env a b c e s of
               (Inl x, s') \<Rightarrow> (Inl x, s')
             | (Inr used, s') \<Rightarrow> (Inr (f used), s')) = s" for a b c e and f :: "bool \<Rightarrow> OpenCL_device"
    using Verify_if_Device_is_Used_state [of env a b c e s]
    by (cases "Verify_if_Device_is_Used env a b c e s") (auto split: sum.splits)
  then show ?thesis
    by (simp add: Set_Information_def Let_def)
qed

lemma Set_Information_Inr:
  assumes "Set_Information env i dev off nm gpu d s = (Inr d', s')"
  shows "s' = s" "dev_id d' = i" "device d' = dev" "device_is_gpu d' = gpu"
    "max_compute_units d' = info_max_compute_units (clGetDeviceInfo env dev)"
    "dev_name d' = info_name (clGetDeviceInfo env dev)"
    "is_lockable d' = is_lockable d" "file_locked d' = file_locked d"
    "lock_file d' = lock_file d" "parent_platform d' = parent_platform d"
    "dev_context d' = dev_context d"
    "fst (Verify_if_Device_is_Used env i off nm (info_name (clGetDeviceInfo env dev)) s)
       = Inr (device_is_in_use d')"
proof -
  show "s' = s"
    using assms Set_Information_state [of env i dev off nm gpu d s] by simp
  obtain r where r: "Verify_if_Device_is_Used env i off nm (info_name (clGetDeviceInfo env dev)) s = (r, s)"
    using Verify_if_Device_is_Used_state [of env i off nm "info_name (clGetDeviceInfo env dev)" s]
    by (cases "Verify_if_Device_is_Used env i off nm (info_name (clGetDeviceInfo env dev)) s") simp
  have *: "dev_id d' = i \<and> device d' = dev \<and> device_is_gpu d' = gpu
    \<and> max_compute_units d' = info_max_compute_units (clGetDeviceInfo env dev)
    \<and> dev_name d' = info_name (clGetDeviceInfo env dev)
    \<and> is_lockable d' = is_lockable d \<and> file_locked d' = file_locked d
    \<and> lock_file d' = lock_file d \<and> parent_platform d' = parent_platform d
    \<and> dev_context d' = dev_context d \<and> r = Inr (device_is_in_use d')"
    using assms r
    by (cases r) (auto simp: Set_Information_def Let_def split: if_splits)
  then show "dev_id d' = i" "device d' = dev" "device_is_gpu d' = gpu"
    "max_compute_units d' = info_max_compute_units (clGetDeviceInfo env dev)"
    "dev_name d' = info_name (clGetDeviceInfo env dev)"
    "is_lockable d' = is_lockable d" "file_locked d' = file_locked d"
    "lock_file d' = lock_file d" "parent_platform d' = parent_platform d"
    "dev_context d' = dev_context d"
    by simp_all
  show "fst (Verify_if_Device_is_Used env i off nm (info_name (clGetDeviceInfo env dev)) s)
       = Inr (device_is_in_use d')"
    using * r by simp
qed

lemma add_devices_state:
  "snd (add_devices env off nm gpu first tmp i it dl all s) = s"
proof (induction env off nm gpu first tmp i it dl all s rule: add_devices.induct)
  case (1 env off nm gpu first tmp i it dl all s)
  show ?case
  proof (cases "i < length tmp")
    case False
    then show ?thesis by (subst add_devices.simps) simp
  next
    case True
    obtain r where r: "Set_Information env (int (first + i)) (tmp ! i) off nm gpu (dl ! it) s = (r, s)"
      using Set_Information_state [of env "int (first + i)" "tmp ! i" off nm gpu "dl ! it" s]
      by (cases "Set_Information env (int (first + i)) (tmp ! i) off nm gpu (dl ! it) s") simp
    show ?thesis
    proof (cases r)
      case (Inl e)
      then show ?thesis using True r by (subst add_devices.simps) simp
    next
      case (Inr d)
      then show ?thesis
        using True r 1 [OF True r [symmetric, unfolded Inr] refl]
        by (subst add_devices.simps) simp
    qed
  qed
qed

lemma add_devices_Inr:
  "add_devices env off nm gpu first tmp i it dl all s = (Inr (dl', all'), s') \<Longrightarrow>
   it + (length tmp - i) \<le> length dl \<Longrightarrow>
   length dl' = length dl \<and>
   (\<forall>k. k < it \<or> it + (length tmp - i) \<le> k \<longrightarrow> dl' ! k = dl ! k) \<and>
   (\<forall>k < length tmp - i.
       Set_Information env (int (first + (i + k))) (tmp ! (i + k)) off nm gpu (dl ! (it + k)) s
         = (Inr (dl' ! (it + k)), s)) \<and>
   all' = (all \<and> (\<forall>k < length tmp - i. device_is_in_use (dl' ! (it + k))))"
proof (induction env off nm gpu first tmp i it dl all s rule: add_devices.induct)
  case (1 env off nm gpu first tmp i it dl all s)
  show ?case
  proof (cases "i < length tmp")
    case False
    then show ?thesis using "1.prems" by (subst (asm) add_devices.simps) simp
  next
    case True
    obtain r where r: "Set_Information env (int (first + i)) (tmp ! i) off nm gpu (dl ! it) s = (r, s)"
      using Set_Information_state [of env "int (first + i)" "tmp ! i" off nm gpu "dl ! it" s]
      by (cases "Set_Information env (int (first + i)) (tmp ! i) off nm gpu (dl ! it) s") simp
    show ?thesis
    proof (cases r)
      case (Inl e)
      then show ?thesis using True r "1.prems"(1) by (subst (asm) add_devices.simps) simp
    next
      case (Inr d)
      define all1 where "all1 = (if \<not> Is_In_Use d then False else all)"
      have rec: "add_devices env off nm gpu first tmp (Suc i) (Suc it) (dl[it := d]) all1 s
                   = (Inr (dl', all'), s')"
        using True r Inr "1.prems"(1) by (subst (asm) add_devices.simps) (simp add: all1_def)
      have bound: "Suc it + (length tmp - Suc i) \<le> length (dl[it := d])"
        using True "1.prems"(2) by simp
      note IH = "1.IH" [OF True r [symmetric, unfolded Inr] refl rec [unfolded all1_def] bound,
          folded all1_def]
      have it: "it < length dl" using True "1.prems"(2) by simp
      have len: "length dl' = length dl" using IH by simp
      have keep: "dl' ! k = dl[it := d] ! k" if "k < Suc it \<or> Suc it + (length tmp - Suc i) \<le> k" for k
        using IH that by blast
      have at_it: "dl' ! it = d"
        using keep [of it] it by simp
      have eq: "Suc it + (length tmp - Suc i) = it + (length tmp - i)"
        using True by simp
      have outside: "dl' ! k = dl ! k" if "k < it \<or> it + (length tmp - i) \<le> k" for k
      proof -
        have "k < Suc it \<or> Suc it + (length tmp - Suc i) \<le> k" "k \<noteq> it"
          using that eq by linarith+
        then show ?thesis using keep [of k] by simp
      qed
      have step: "Set_Information env (int (first + (i + k))) (tmp ! (i + k)) off nm gpu
                    (dl ! (it + k)) s = (Inr (dl' ! (it + k)), s)" if "k < length tmp - i" for k
      proof (cases k)
        case 0
        then show ?thesis using r Inr at_it by simp
      next
        case (Suc j)
        have "j < length tmp - Suc i" using that Suc by simp
        then have "Set_Information env (int (first + (Suc i + j))) (tmp ! (Suc i + j)) off nm gpu
                    (dl[it := d] ! (Suc it + j)) s = (Inr (dl' ! (Suc it + j)), s)"
          using IH by blast
        then show ?thesis using Suc by simp
      qed
      have all': "all' = (all1 \<and> (\<forall>k < length tmp - Suc i. device_is_in_use (dl' ! (Suc it + k))))"
        using IH by blast
      have "(\<forall>k < length tmp - i. device_is_in_use (dl' ! (it + k)))
              \<longleftrightarrow> device_is_in_use d \<and> (\<forall>k < length tmp - Suc i. device_is_in_use (dl' ! (Suc it + k)))"
      proof
        assume a: "\<forall>k < length tmp - i. device_is_in_use (dl' ! (it + k))"
        have "device_is_in_use (dl' ! (it + 0))" using a True by (metis zero_less_diff)
        moreover have "device_is_in_use (dl' ! (Suc it + k))" if "k < length tmp - Suc i" for k
          using a [rule_format, of "Suc k"] that by simp
        ultimately show "device_is_in_use d \<and> (\<forall>k < length tmp - Suc i. device_is_in_use (dl' ! (Suc it + k)))"
          using at_it by simp
      next
        assume b: "device_is_in_use d \<and> (\<forall>k < length tmp - Suc i. device_is_in_use (dl' ! (Suc it + k)))"
        show "\<forall>k < length tmp - i. device_is_in_use (dl' ! (it + k))"
        proof (intro allI impI)
          fix k assume "k < length tmp - i"
          then show "device_is_in_use (dl' ! (it + k))"
            using b at_it by (cases k) auto
        qed
      qed
      then have flag: "all' = (all \<and> (\<forall>k < length tmp - i. device_is_in_use (dl' ! (it + k))))"
        using all' by (auto simp: all1_def Is_In_Use_def)
      show ?thesis using len outside step flag by blast
    qed
  qed
qed

lemma add_block_state:
  "snd (add_block env off nm gpu first err tmp it dl all s) = s"
  by (simp add: add_block_def add_devices_state)

lemma add_block_Inr:
  assumes "add_block env off nm gpu first err tmp it dl all s = (Inr (dl', all'), s')"
    and "it + length tmp \<le> length dl"
  shows "s' = s" "length dl' = length dl"
    "\<And>k. k < it \<or> it + length tmp \<le> k \<Longrightarrow> dl' ! k = dl ! k"
    "\<And>k. k < length tmp \<Longrightarrow>
       Set_Information env (int (first + k)) (tmp ! k) off nm gpu (dl ! (it + k)) s
         = (Inr (dl' ! (it + k)), s)"
    "all' = (all \<and> (\<forall>k < length tmp. device_is_in_use (dl' ! (it + k))))"
proof -
  show "s' = s"
    using assms(1) add_block_state [of env off nm gpu first err tmp it dl all s] by simp
  have "add_devices env off nm gpu first tmp 0 it dl all s = (Inr (dl', all'), s')"
  proof (cases tmp)
    case Nil
    then show ?thesis using assms(1) by (subst add_devices.simps) (simp add: add_block_def)
  next
    case (Cons a list)
    then show ?thesis using assms(1) by (simp add: add_block_def split: if_splits)
  qed
  from add_devices_Inr [OF this] assms(2)
  have *: "length dl' = length dl \<and>
   (\<forall>k. k < it \<or> it + (length tmp - 0) \<le> k \<longrightarrow> dl' ! k = dl ! k) \<and>
   (\<forall>k < length tmp - 0.
       Set_Information env (int (first + (0 + k))) (tmp ! (0 + k)) off nm gpu (dl ! (it + k)) s
         = (Inr (dl' ! (it + k)), s)) \<and>
   all' = (all \<and> (\<forall>k < length tmp - 0. device_is_in_use (dl' ! (it + k))))"
    by simp
  show "length dl' = length dl" using * by simp
  show "dl' ! k = dl ! k" if "k < it \<or> it + length tmp \<le> k" for k
    using * that by auto
  have c3: "\<forall>k < length tmp - 0.
       Set_Information env (int (first + (0 + k))) (tmp ! (0 + k)) off nm gpu (dl ! (it + k)) s
         = (Inr (dl' ! (it + k)), s)"
    using * by blast
  show "Set_Information env (int (first + k)) (tmp ! k) off nm gpu (dl ! (it + k)) s
         = (Inr (dl' ! (it + k)), s)" if "k < length tmp" for k
    using c3 [rule_format, of k] that by simp
  show "all' = (all \<and> (\<forall>k < length tmp. device_is_in_use (dl' ! (it + k))))" using * by simp
qed

lemma Unlock_context_calls: "context_calls (snd (Unlock d s)) = context_calls s"
  by (simp add: Unlock_def UnlockFile_def)

lemma destroy_devices_context_calls: "context_calls (destroy_devices ds s) = context_calls s"
  unfolding destroy_devices_def
  by (induction ds arbitrary: s) (simp_all add: Unlock_context_calls)

lemma enumerate_devices_steps:
  assumes "enumerate_devices env pid off nm l s = (Inr (l1, all), s1)"
    and "cpus = snd (clGetDeviceIDs env pid CL_DEVICE_TYPE_CPU)"
    and "gpus = snd (clGetDeviceIDs env pid CL_DEVICE_TYPE_GPU)"
    and "n = length cpus + length gpus"
    and "dl0 = take n (device_list l) @ replicate (n - length (device_list l)) OpenCL_device_new"
    and "s0 = destroy_devices (drop n (device_list l)) s"
  shows "\<exists>dl1 all1 dl2 ec eg.
           add_block env off nm False 0 ec cpus 0 dl0 True s0 = (Inr (dl1, all1), s0)
         \<and> add_block env off nm True (length cpus) eg gpus (length cpus) dl1 all1 s0
             = (Inr (dl2, all), s0)
         \<and> l1 = l\<lparr>nb_gpu := length gpus, nb_cpu := length cpus, device_list := dl2\<rparr>
         \<and> s1 = s0 \<and> 1 \<le> n \<and> length dl2 = n"
proof -
  obtain eg where g: "clGetDeviceIDs env pid CL_DEVICE_TYPE_GPU = (eg, gpus)"
    using assms(3) by (cases "clGetDeviceIDs env pid CL_DEVICE_TYPE_GPU") simp
  obtain ec where c: "clGetDeviceIDs env pid CL_DEVICE_TYPE_CPU = (ec, cpus)"
    using assms(2) by (cases "clGetDeviceIDs env pid CL_DEVICE_TYPE_CPU") simp
  have conds: "OpenCL_Test_Success (if eg = CL_DEVICE_NOT_FOUND then CL_SUCCESS else eg)"
    "OpenCL_Test_Success (if ec = CL_DEVICE_NOT_FOUND then CL_SUCCESS else ec)"
    "1 \<le> length cpus + length gpus"
    using assms(1)
    by (auto simp: enumerate_devices_def g c Let_def nb_devices_def split: if_splits)
  have E: "enumerate_devices env pid off nm l s =
      (case add_block env off nm False 0 ec cpus 0 dl0 True s0 of
              (Inl e, sa) \<Rightarrow> (Inl e, sa)
            | (Inr (dl1, all1), sa) \<Rightarrow>
                (case add_block env off nm True (length cpus) eg gpus (length cpus) dl1 all1 sa of
                   (Inl e, sb) \<Rightarrow> (Inl e, sb)
                 | (Inr (dl2, all2), sb) \<Rightarrow>
                     (if n \<noteq> length dl2 then (Inl Assertion_Failed, sb)
                      else (Inr (l\<lparr>nb_gpu := length gpus, nb_cpu := length cpus, device_list := dl2\<rparr>, all2), sb))))"
    using conds
    by (simp add: enumerate_devices_def g c Let_def nb_devices_def resize_def assms(4,5,6)
        cong: prod.case_cong sum.case_cong)
  obtain r1 where r1: "add_block env off nm False 0 ec cpus 0 dl0 True s0 = (r1, s0)"
    using add_block_state [of env off nm False 0 ec cpus 0 dl0 True s0]
    by (cases "add_block env off nm False 0 ec cpus 0 dl0 True s0") simp
  have A: "(case r1 of
              Inl e \<Rightarrow> (Inl e, s0)
            | Inr (dl1, all1) \<Rightarrow>
                (case add_block env off nm True (length cpus) eg gpus (length cpus) dl1 all1 s0 of
                   (Inl e, sb) \<Rightarrow> (Inl e, sb)
                 | (Inr (dl2, all2), sb) \<Rightarrow>
                     (if n \<noteq> length dl2 then (Inl Assertion_Failed, sb)
                      else (Inr (l\<lparr>nb_gpu := length gpus, nb_cpu := length cpus, device_list := dl2\<rparr>, all2), sb))))
           = (Inr (l1, all), s1)"
    using assms(1) unfolding E r1 by simp
  then obtain dl1 all1 where r1': "r1 = Inr (dl1, all1)"
    by (cases r1) auto
  obtain r2 where r2: "add_block env off nm True (length cpus) eg gpus (length cpus) dl1 all1 s0 = (r2, s0)"
    using add_block_state [of env off nm True "length cpus" eg gpus "length cpus" dl1 all1 s0]
    by (cases "add_block env off nm True (length cpus) eg gpus (length cpus) dl1 all1 s0") simp
  have B: "(case r2 of
                   Inl e \<Rightarrow> (Inl e, s0)
                 | Inr (dl2, all2) \<Rightarrow>
                     (if n \<noteq> length dl2 then (Inl Assertion_Failed, s0)
                      else (Inr (l\<lparr>nb_gpu := length gpus, nb_cpu := length cpus, device_list := dl2\<rparr>, all2), s0)))
           = (Inr (l1, all), s1)"
    using A unfolding r1' by (simp add: r2)
  then obtain dl2 all2 where r2': "r2 = Inr (dl2, all2)"
    by (cases r2) auto
  have C: "length dl2 = n" "l1 = l\<lparr>nb_gpu := length gpus, nb_cpu := length cpus, device_list := dl2\<rparr>"
    "all = all2" "s1 = s0"
    using B unfolding r2' by (auto split: if_splits)
  have "1 \<le> n" using conds(3) assms(4) by simp
  then show ?thesis
    using r1 r1' r2 r2' C by auto
qed

lemma enumerate_devices_context_calls:
  "context_calls (snd (enumerate_devices env pid off nm l s)) = context_calls s"
proof -
  obtain eg gpus where g: "clGetDeviceIDs env pid CL_DEVICE_TYPE_GPU = (eg, gpus)"
    by (cases "clGetDeviceIDs env pid CL_DEVICE_TYPE_GPU") simp
  obtain ec cpus where c: "clGetDeviceIDs env pid CL_DEVICE_TYPE_CPU = (ec, cpus)"
    by (cases "clGetDeviceIDs env pid CL_DEVICE_TYPE_CPU") simp
  define s0 where "s0 = destroy_devices (drop (length cpus + length gpus) (device_list l)) s"
  have s0: "context_calls s0 = context_calls s"
    by (simp add: s0_def destroy_devices_context_calls)
  have blk: "snd (case add_block env off nm gpu first err tmp it dl all s0 of
                (Inl e, sa) \<Rightarrow> (Inl e, sa)
              | (Inr (dl1, all1), sa) \<Rightarrow> f dl1 all1 sa) = s0"
    if "\<And>dl1 all1. snd (f dl1 all1 s0) = s0"
    for gpu first err tmp it dl all and f :: "OpenCL_device list \<Rightarrow> bool \<Rightarrow> process \<Rightarrow> (error + 'a) \<times> process"
    using add_block_state [of env off nm gpu first err tmp it dl all s0] that
    by (cases "add_block env off nm gpu first err tmp it dl all s0") (auto split: sum.splits)
  have inner: "snd (case add_block env off nm True first err tmp it dl1 all1 s0 of
                (Inl e, sb) \<Rightarrow> (Inl e, sb)
              | (Inr (dl2, all2), sb) \<Rightarrow>
                  (if m \<noteq> length dl2 then (Inl Assertion_Failed, sb)
                   else (Inr (g dl2, all2), sb))) = s0"
    for first err tmp it dl1 all1 m and g :: "OpenCL_device list \<Rightarrow> OpenCL_devices_list"
    by (rule blk) simp
  show ?thesis
  proof (cases "OpenCL_Test_Success (if eg = CL_DEVICE_NOT_FOUND then CL_SUCCESS else eg)
      \<and> OpenCL_Test_Success (if ec = CL_DEVICE_NOT_FOUND then CL_SUCCESS else ec)
      \<and> 1 \<le> length cpus + length gpus")
    case False
    then show ?thesis
      by (auto simp: enumerate_devices_def g c Let_def nb_devices_def)
  next
    case True
    have "snd (enumerate_devices env pid off nm l s) = s0"
      using True
      apply (simp add: enumerate_devices_def g c Let_def nb_devices_def resize_def
          s0_def [symmetric] cong: prod.case_cong sum.case_cong)
      apply (rule blk)
      apply (rule inner)
      done
    then show ?thesis by (simp add: s0)
  qed
qed

lemma example_list_sort:
  "list_sort [example_cpu, example_gpu0, example_gpu1] = [example_gpu0, example_cpu, example_gpu1]"
  by (simp add: list_sort_def OpenCL_device_less_def example_cpu_def example_gpu0_def
      example_gpu1_def example_device_def OpenCL_device_new_def)

section \<open>The loop over the sorted devices\<close>

lemma Set_Context_eq:
  "Set_Context env d s =
     (fst (clCreateContext env (device d)),
      d\<lparr>dev_context := snd (clCreateContext env (device d))\<rparr>,
      s\<lparr>context_calls := context_calls s @ [device d]\<rparr>)"
  by (simp add: Set_Context_def split: prod.splits)

lemma set_context_loop_step:
  "it < length dl \<Longrightarrow>
   set_context_loop env it dl s =
     (if fst (clCreateContext env (device (dl ! it))) = CL_SUCCESS
      then (Some it, dl[it := (dl ! it)\<lparr>dev_context := snd (clCreateContext env (device (dl ! it)))\<rparr>],
            s\<lparr>context_calls := context_calls s @ [device (dl ! it)]\<rparr>)
      else set_context_loop env (Suc it)
             (dl[it := (dl ! it)\<lparr>dev_context := snd (clCreateContext env (device (dl ! it)))\<rparr>])
             (s\<lparr>context_calls := context_calls s @ [device (dl ! it)]\<rparr>))"
  by (subst set_context_loop.simps) (simp add: Set_Context_eq)

lemma set_context_loop_stop:
  "\<not> it < length dl \<Longrightarrow> set_context_loop env it dl s = (None, dl, s)"
  by (subst set_context_loop.simps) simp

lemma set_context_loop_same:
  "set_context_loop env it dl s = (r, dl', s') \<Longrightarrow>
   length dl' = length dl \<and> held_locks s' = held_locks s
   \<and> map (dev_context_update (\<lambda>c. 0)) dl' = map (dev_context_update (\<lambda>c. 0)) dl
   \<and> (\<forall>k < it. dl' ! k = dl ! k)"
proof (induction env it dl s rule: set_context_loop.induct)
  case (1 env it dl s)
  show ?case
  proof (cases "it < length dl")
    case False
    then show ?thesis using "1.prems" by (simp add: set_context_loop_stop)
  next
    case True
    let ?d = "(dl ! it)\<lparr>dev_context := snd (clCreateContext env (device (dl ! it)))\<rparr>"
    let ?s = "s\<lparr>context_calls := context_calls s @ [device (dl ! it)]\<rparr>"
    have erase: "map (dev_context_update (\<lambda>c. 0)) (dl[it := ?d]) = map (dev_context_update (\<lambda>c. 0)) dl"
      using True by (simp add: map_update list_update_same_conv)
    show ?thesis
    proof (cases "fst (clCreateContext env (device (dl ! it))) = CL_SUCCESS")
      case ok: True
      then show ?thesis
        using "1.prems" True erase by (auto simp: set_context_loop_step)
    next
      case fail: False
      have rec: "set_context_loop env (Suc it) (dl[it := ?d]) ?s = (r, dl', s')"
        using "1.prems" True fail by (simp add: set_context_loop_step)
      have sc: "Set_Context env (dl ! it) s = (fst (clCreateContext env (device (dl ! it))), ?d, ?s)"
        by (rule Set_Context_eq)
      have IH: "length dl' = length (dl[it := ?d]) \<and> held_locks s' = held_locks ?s
         \<and> map (dev_context_update (\<lambda>c. 0)) dl' = map (dev_context_update (\<lambda>c. 0)) (dl[it := ?d])
         \<and> (\<forall>k < Suc it. dl' ! k = dl[it := ?d] ! k)"
        using "1.IH" [OF True sc [symmetric] refl fail rec] by blast
      then show ?thesis using erase by auto
    qed
  qed
qed

lemma set_context_loop_Some:
  "set_context_loop env it dl s = (Some i, dl', s') \<Longrightarrow>
   it \<le> i \<and> i < length dl
   \<and> fst (clCreateContext env (device (dl ! i))) = CL_SUCCESS
   \<and> (\<forall>k. it \<le> k \<and> k < i \<longrightarrow> fst (clCreateContext env (device (dl ! k))) \<noteq> CL_SUCCESS)
   \<and> context_calls s' = context_calls s @ map device (drop it (take (Suc i) dl))
   \<and> (\<forall>k. i < k \<longrightarrow> dl' ! k = dl ! k)"
proof (induction env it dl s rule: set_context_loop.induct)
  case (1 env it dl s)
  show ?case
  proof (cases "it < length dl")
    case False
    then show ?thesis using "1.prems" by (simp add: set_context_loop_stop)
  next
    case True
    let ?d = "(dl ! it)\<lparr>dev_context := snd (clCreateContext env (device (dl ! it)))\<rparr>"
    let ?s = "s\<lparr>context_calls := context_calls s @ [device (dl ! it)]\<rparr>"
    show ?thesis
    proof (cases "fst (clCreateContext env (device (dl ! it))) = CL_SUCCESS")
      case ok: True
      have "i = it" "dl' = dl[it := ?d]" "s' = ?s"
        using "1.prems" True ok by (auto simp: set_context_loop_step)
      moreover have "drop it (take (Suc it) dl) = [dl ! it]"
        using True by (simp add: take_Suc_conv_app_nth)
      ultimately show ?thesis using True ok by simp
    next
      case fail: False
      have rec: "set_context_loop env (Suc it) (dl[it := ?d]) ?s = (Some i, dl', s')"
        using "1.prems" True fail by (simp add: set_context_loop_step)
      have sc: "Set_Context env (dl ! it) s = (fst (clCreateContext env (device (dl ! it))), ?d, ?s)"
        by (rule Set_Context_eq)
      note IH = "1.IH" [OF True sc [symmetric] refl fail rec]
      have i: "Suc it \<le> i" "i < length dl" using IH by simp_all
      have dev: "device (dl[it := ?d] ! k) = device (dl ! k)" for k
        by (cases "k = it") (use True in auto)
      have ok_i: "fst (clCreateContext env (device (dl ! i))) = CL_SUCCESS"
        using IH dev [of i] by simp
      have before: "fst (clCreateContext env (device (dl ! k))) \<noteq> CL_SUCCESS" if "it \<le> k \<and> k < i" for k
      proof (cases "k = it")
        case True
        then show ?thesis using fail by simp
      next
        case False
        then have "Suc it \<le> k \<and> k < i" using that by simp
        then show ?thesis using IH dev [of k] by auto
      qed
      have "drop it (take (Suc i) dl) = dl ! it # drop (Suc it) (take (Suc i) dl)"
        using i True by (metis Cons_nth_drop_Suc length_take min.absorb2 Suc_leI
            less_Suc_eq_le Suc_le_lessD less_imp_le_nat nth_take le_imp_less_Suc)
      moreover have "drop (Suc it) (take (Suc i) (dl[it := ?d])) = drop (Suc it) (take (Suc i) dl)"
        by (simp add: take_update_swap)
      ultimately have calls: "context_calls s' = context_calls s @ map device (drop it (take (Suc i) dl))"
        using IH by simp
      have after: "dl' ! k = dl ! k" if "i < k" for k
        using IH that i by auto
      show ?thesis using i ok_i before calls after by auto
    qed
  qed
qed

lemma set_context_loop_None:
  "set_context_loop env it dl s = (None, dl', s') \<Longrightarrow>
   (\<forall>k. it \<le> k \<and> k < length dl \<longrightarrow> fst (clCreateContext env (device (dl ! k))) \<noteq> CL_SUCCESS)
   \<and> context_calls s' = context_calls s @ map device (drop it dl)"
proof (induction env it dl s rule: set_context_loop.induct)
  case (1 env it dl s)
  show ?case
  proof (cases "it < length dl")
    case False
    then show ?thesis using "1.prems" by (simp add: set_context_loop_stop)
  next
    case True
    let ?d = "(dl ! it)\<lparr>dev_context := snd (clCreateContext env (device (dl ! it)))\<rparr>"
    let ?s = "s\<lparr>context_calls := context_calls s @ [device (dl ! it)]\<rparr>"
    have fail: "fst (clCreateContext env (device (dl ! it))) \<noteq> CL_SUCCESS"
      using "1.prems" True by (auto simp: set_context_loop_step split: if_splits)
    have rec: "set_context_loop env (Suc it) (dl[it := ?d]) ?s = (None, dl', s')"
      using "1.prems" True fail by (simp add: set_context_loop_step)
    have sc: "Set_Context env (dl ! it) s = (fst (clCreateContext env (device (dl ! it))), ?d, ?s)"
      by (rule Set_Context_eq)
    note IH = "1.IH" [OF True sc [symmetric] refl fail rec]
    have dev: "device (dl[it := ?d] ! k) = device (dl ! k)" for k
      by (cases "k = it") (use True in auto)
    have all: "fst (clCreateContext env (device (dl ! k))) \<noteq> CL_SUCCESS" if "it \<le> k \<and> k < length dl" for k
    proof (cases "k = it")
      case True
      then show ?thesis using fail by simp
    next
      case False
      then have "Suc it \<le> k \<and> k < length (dl[it := ?d])" using that by simp
      then show ?thesis using IH dev [of k] by auto
    qed
    have "drop it dl = dl ! it # drop (Suc it) dl"
      using True by (simp add: Cons_nth_drop_Suc)
    then have "context_calls s' = context_calls s @ map device (drop it dl)"
      using IH by simp
    then show ?thesis using all by blast
  qed
qed

section \<open>What the discovery returns\<close>

lemma erased_map:
  assumes "map (dev_context_update (\<lambda>c. 0)) xs = map (dev_context_update (\<lambda>c. 0)) ys"
    and "\<And>d. f (dev_context_update (\<lambda>c. 0) d) = f d"
  shows "map f xs = map f ys"
proof -
  have "map f (map (dev_context_update (\<lambda>c. 0)) xs) = map f (map (dev_context_update (\<lambda>c. 0)) ys)"
    using assms(1) by simp
  then show ?thesis by (simp add: o_def assms(2))
qed

lemma enumerate_devices_devices:
  assumes "enumerate_devices env pid off nm l s = (Inr (l1, all), s1)"
    and "cpus = snd (clGetDeviceIDs env pid CL_DEVICE_TYPE_CPU)"
    and "gpus = snd (clGetDeviceIDs env pid CL_DEVICE_TYPE_GPU)"
  shows "nb_cpu l1 = length cpus" "nb_gpu l1 = length gpus"
    "length (device_list l1) = length cpus + length gpus"
    "1 \<le> length cpus + length gpus"
    "\<And>k. k < length cpus \<Longrightarrow>
       \<exists>d0. is_lockable d0 = is_lockable
              ((take (length cpus + length gpus) (device_list l)
                 @ replicate (length cpus + length gpus - length (device_list l)) OpenCL_device_new) ! k) \<and>
         Set_Information env (int k) (cpus ! k) off nm False d0 s1
           = (Inr (device_list l1 ! k), s1)"
    "\<And>k. k < length gpus \<Longrightarrow>
       \<exists>d0. is_lockable d0 = is_lockable
              ((take (length cpus + length gpus) (device_list l)
                 @ replicate (length cpus + length gpus - length (device_list l)) OpenCL_device_new)
                 ! (length cpus + k)) \<and>
         Set_Information env (int (length cpus + k)) (gpus ! k) off nm True d0 s1
           = (Inr (device_list l1 ! (length cpus + k)), s1)"
    "all = (\<forall>d\<in>set (device_list l1). device_is_in_use d)"
    "context_calls s1 = context_calls s"
proof -
  define n where "n = length cpus + length gpus"
  define dl0 where "dl0 = take n (device_list l) @ replicate (n - length (device_list l)) OpenCL_device_new"
  define s0 where "s0 = destroy_devices (drop n (device_list l)) s"
  obtain dl1 all1 dl2 ec eg where
    b1: "add_block env off nm False 0 ec cpus 0 dl0 True s0 = (Inr (dl1, all1), s0)" and
    b2: "add_block env off nm True (length cpus) eg gpus (length cpus) dl1 all1 s0 = (Inr (dl2, all), s0)" and
    l1: "l1 = l\<lparr>nb_gpu := length gpus, nb_cpu := length cpus, device_list := dl2\<rparr>" and
    s1: "s1 = s0" and n1: "1 \<le> n" and len2: "length dl2 = n"
    using enumerate_devices_steps [OF assms(1,2,3) n_def dl0_def s0_def] by blast
  have len0: "length dl0 = n" by (simp add: dl0_def)
  have fit1: "0 + length cpus \<le> length dl0" using len0 n_def by simp
  note B1 = add_block_Inr [OF b1 fit1]
  have fit2: "length cpus + length gpus \<le> length dl1" using B1(2) len0 n_def by simp
  note B2 = add_block_Inr [OF b2 fit2]
  show "nb_cpu l1 = length cpus" "nb_gpu l1 = length gpus" using l1 by simp_all
  show "length (device_list l1) = length cpus + length gpus" using l1 len2 n_def by simp
  show "1 \<le> length cpus + length gpus" using n1 n_def by simp
  show "context_calls s1 = context_calls s"
    using s1 by (simp add: s0_def destroy_devices_context_calls)
  have cpu: "Set_Information env (int k) (cpus ! k) off nm False (dl0 ! k) s1
               = (Inr (device_list l1 ! k), s1)" if "k < length cpus" for k
    using B1(4) [OF that] B2(3) [of k] that l1 s1 by simp
  have gpu: "Set_Information env (int (length cpus + k)) (gpus ! k) off nm True (dl0 ! (length cpus + k)) s1
               = (Inr (device_list l1 ! (length cpus + k)), s1)" if "k < length gpus" for k
    using B2(4) [OF that] B1(3) [of "length cpus + k"] l1 s1 by simp
  show "\<exists>d0. is_lockable d0 = is_lockable
              ((take (length cpus + length gpus) (device_list l)
                 @ replicate (length cpus + length gpus - length (device_list l)) OpenCL_device_new) ! k) \<and>
         Set_Information env (int k) (cpus ! k) off nm False d0 s1
           = (Inr (device_list l1 ! k), s1)" if "k < length cpus" for k
    using cpu [OF that] unfolding dl0_def n_def by blast
  show "\<exists>d0. is_lockable d0 = is_lockable
              ((take (length cpus + length gpus) (device_list l)
                 @ replicate (length cpus + length gpus - length (device_list l)) OpenCL_device_new)
                 ! (length cpus + k)) \<and>
         Set_Information env (int (length cpus + k)) (gpus ! k) off nm True d0 s1
           = (Inr (device_list l1 ! (length cpus + k)), s1)" if "k < length gpus" for k
    using gpu [OF that] unfolding dl0_def n_def by blast
  have a1: "all1 = (\<forall>k < length cpus. device_is_in_use (dl2 ! k))"
    using B1(5) B2(3) by simp
  have a2: "all = (all1 \<and> (\<forall>k < length gpus. device_is_in_use (dl2 ! (length cpus + k))))"
    using B2(5) by simp
  have "(\<forall>d\<in>set dl2. device_is_in_use d) \<longleftrightarrow> (\<forall>j < length cpus + length gpus. device_is_in_use (dl2 ! j))"
    using len2 n_def by (metis all_set_conv_all_nth)
  also have "\<dots> \<longleftrightarrow> (\<forall>k < length cpus. device_is_in_use (dl2 ! k))
                \<and> (\<forall>k < length gpus. device_is_in_use (dl2 ! (length cpus + k)))"
  proof (intro iffI conjI allI impI)
    fix j assume h: "(\<forall>k < length cpus. device_is_in_use (dl2 ! k))
                \<and> (\<forall>k < length gpus. device_is_in_use (dl2 ! (length cpus + k)))"
      and j: "j < length cpus + length gpus"
    show "device_is_in_use (dl2 ! j)"
    proof (cases "j < length cpus")
      case True then show ?thesis using h by blast
    next
      case False
      then have "j - length cpus < length gpus" "j = length cpus + (j - length cpus)" using j by simp_all
      then show ?thesis using h by metis
    qed
  qed simp_all
  finally show "all = (\<forall>d\<in>set (device_list l1). device_is_in_use d)"
    using a1 a2 l1 by simp
qed

lemma Initialize_Inr:
  assumes "OpenCL_devices_list_Initialize env pid off nm l s = (Inr l', s')"
  shows "\<exists>l1 s1 i dl4.
           enumerate_devices env pid off nm l s = (Inr (l1, False), s1)
         \<and> set_context_loop env 0 (list_sort (store_parent_platform off nm (device_list l1))) s1
             = (Some i, dl4, s')
         \<and> l' = l1\<lparr>device_list := dl4, preferred_device := Some i, is_initialized := True\<rparr>"
proof -
  obtain r s1 where e: "enumerate_devices env pid off nm l s = (r, s1)"
    by (cases "enumerate_devices env pid off nm l s") simp
  obtain l1 all where r: "r = Inr (l1, all)"
    using assms e by (cases r) (auto simp: OpenCL_devices_list_Initialize_def)
  have na: "\<not> all"
    using assms e r by (auto simp: OpenCL_devices_list_Initialize_def split: if_splits)
  obtain q dl4 s2 where c: "set_context_loop env 0 (list_sort (store_parent_platform off nm (device_list l1))) s1 = (q, dl4, s2)"
    by (cases "set_context_loop env 0 (list_sort (store_parent_platform off nm (device_list l1))) s1") auto
  show ?thesis
    using assms e r na c
    by (cases q) (auto simp: OpenCL_devices_list_Initialize_def Let_def)
qed

lemma Initialize_after_enumeration:
  assumes "enumerate_devices env pid off nm l s = (Inr (l1, False), s1)"
  shows "OpenCL_devices_list_Initialize env pid off nm l s =
     (case set_context_loop env 0 (list_sort (store_parent_platform off nm (device_list l1))) s1 of
        (None, dl4, s2) \<Rightarrow> (Inl Cannot_Set_Context, s2)
      | (Some i, dl4, s2) \<Rightarrow>
          (Inr (l1\<lparr>device_list := dl4, preferred_device := Some i, is_initialized := True\<rparr>), s2))"
  using assms by (simp add: OpenCL_devices_list_Initialize_def Let_def)

section \<open>The example platform: discovery\<close>

lemmas example_eval = enumerate_devices_def add_block_def add_devices.simps Set_Information_def
  Verify_if_Device_is_Used_def LockFile_def UnlockFile_def flock_def already_locked_def
  new_descriptor_def resize_def destroy_devices_def nb_devices_def OpenCL_Test_Success_def
  CL_SUCCESS_def CL_DEVICE_NOT_FOUND_def Is_In_Use_def Let_def
  example_path_c example_path_g example_path_h OpenCL_devices_list_new_def start_def

lemma example_enumerate:
  "enumerate_devices example_env 7 0 ''P'' OpenCL_devices_list_new start
     = (Inr (OpenCL_devices_list_new
              \<lparr>nb_gpu := 2, nb_cpu := 1,
               device_list := map (parent_platform_update (\<lambda>p. None))
                                [example_cpu, example_gpu0, example_gpu1]\<rparr>, False), start)"
  by (simp add: example_eval example_env_def example_cpu_def example_gpu0_def example_gpu1_def
      example_device_def OpenCL_device_new_def)

lemma busy_enumerate:
  "enumerate_devices busy_env 7 0 ''P'' OpenCL_devices_list_new start
     = (Inr (OpenCL_devices_list_new
              \<lparr>nb_gpu := 2, nb_cpu := 1,
               device_list := map (\<lambda>d. d\<lparr>parent_platform := None, device_is_in_use := True\<rparr>)
                                [example_cpu, example_gpu0, example_gpu1]\<rparr>, True), start)"
  by (simp add: example_eval busy_env_def example_env_def example_cpu_def example_gpu0_def example_gpu1_def
      example_device_def OpenCL_device_new_def)

lemma example_sorted:
  "list_sort (store_parent_platform 0 ''P''
      (map (parent_platform_update (\<lambda>p. None)) [example_cpu, example_gpu0, example_gpu1]))
    = [example_gpu0, example_cpu, example_gpu1]"
  by (simp add: store_parent_platform_def list_sort_def OpenCL_device_less_def example_cpu_def
      example_gpu0_def example_gpu1_def example_device_def OpenCL_device_new_def)

lemma failing_enumerate:
  "enumerate_devices failing_env 7 0 ''P'' OpenCL_devices_list_new start
     = (Inr (OpenCL_devices_list_new
              \<lparr>nb_gpu := 2, nb_cpu := 1,
               device_list := map (parent_platform_update (\<lambda>p. None))
                                [example_cpu, example_gpu0, example_gpu1]\<rparr>, False), start)"
  by (simp add: example_eval failing_env_def example_env_def example_cpu_def example_gpu0_def
      example_gpu1_def example_device_def OpenCL_device_new_def)

lemma example_handles:
  "device example_cpu = 10" "device example_gpu0 = 20" "device example_gpu1 = 21"
  by (simp_all add: example_cpu_def example_gpu0_def example_gpu1_def example_device_def
      OpenCL_device_new_def)

lemma store_parent_platform_fields:
  "map dev_id (store_parent_platform off nm dl) = map dev_id dl"
  "map device_is_gpu (store_parent_platform off nm dl) = map device_is_gpu dl"
  "map device (store_parent_platform off nm dl) = map device dl"
  "map is_lockable (store_parent_platform off nm dl) = map is_lockable dl"
  "length (store_parent_platform off nm dl) = length dl"
  by (simp_all add: store_parent_platform_def)

lemma enumerated_fields:
  assumes "enumerate_devices env pid off nm l s = (Inr (l1, all), s1)"
    and "cpus = snd (clGetDeviceIDs env pid CL_DEVICE_TYPE_CPU)"
    and "gpus = snd (clGetDeviceIDs env pid CL_DEVICE_TYPE_GPU)"
    and "k < length cpus + length gpus"
  shows "dev_id (device_list l1 ! k) = int k"
    and "device (device_list l1 ! k) = (cpus @ gpus) ! k"
    and "device_is_gpu (device_list l1 ! k) \<longleftrightarrow> length cpus \<le> k"
proof -
  note E = enumerate_devices_devices [OF assms(1,2,3)]
  have "dev_id (device_list l1 ! k) = int k \<and> device (device_list l1 ! k) = (cpus @ gpus) ! k
      \<and> (device_is_gpu (device_list l1 ! k) \<longleftrightarrow> length cpus \<le> k)"
  proof (cases "k < length cpus")
    case True
    obtain d0 where "Set_Information env (int k) (cpus ! k) off nm False d0 s1
           = (Inr (device_list l1 ! k), s1)"
      using E(5) [OF True] by blast
    from Set_Information_Inr(2,3,4) [OF this] True show ?thesis
      by (simp add: nth_append)
  next
    case False
    define j where "j = k - length cpus"
    have j: "j < length gpus" "k = length cpus + j" using False assms(4) by (simp_all add: j_def)
    obtain d0 where "Set_Information env (int (length cpus + j)) (gpus ! j) off nm True d0 s1
           = (Inr (device_list l1 ! (length cpus + j)), s1)"
      using E(6) [OF j(1)] by blast
    from Set_Information_Inr(2,3,4) [OF this] j show ?thesis
      by (simp add: nth_append)
  qed
  then show "dev_id (device_list l1 ! k) = int k"
    and "device (device_list l1 ! k) = (cpus @ gpus) ! k"
    and "device_is_gpu (device_list l1 ! k) \<longleftrightarrow> length cpus \<le> k"
    by simp_all
qed

lemma example_sorted_nf:
  "list_sort (store_parent_platform 0 ''P''
      [example_cpu\<lparr>parent_platform := None\<rparr>, example_gpu0\<lparr>parent_platform := None\<rparr>,
       example_gpu1\<lparr>parent_platform := None\<rparr>])
    = [example_gpu0, example_cpu, example_gpu1]"
  using example_sorted by simp

lemma example_context_loop:
  "set_context_loop example_env 0 [example_gpu0, example_cpu, example_gpu1] start
     = (Some 1, [example_gpu0\<lparr>dev_context := 0\<rparr>, example_cpu\<lparr>dev_context := 110\<rparr>, example_gpu1],
        start\<lparr>context_calls := [20, 10]\<rparr>)"
proof -
  have cc: "clCreateContext example_env 20 = (- 2, 0)" "clCreateContext example_env 10 = (0, 110)"
    by (simp_all add: example_env_def)
  show ?thesis
    by (simp add: set_context_loop_step example_handles cc CL_SUCCESS_def start_def)
qed

lemma example_Initialize:
  "OpenCL_devices_list_Initialize example_env 7 0 ''P'' OpenCL_devices_list_new start
     = (Inr (OpenCL_devices_list_new
              \<lparr>nb_gpu := 2, nb_cpu := 1,
               device_list := [example_gpu0\<lparr>dev_context := 0\<rparr>,
                               example_cpu\<lparr>dev_context := 110\<rparr>, example_gpu1],
               preferred_device := Some 1, is_initialized := True\<rparr>),
        start\<lparr>context_calls := [20, 10]\<rparr>)"
  unfolding Initialize_after_enumeration [OF example_enumerate]
  by (simp add: example_sorted_nf example_context_loop)

lemma unopenable_probe:
  "Verify_if_Device_is_Used unopenable_env 0 0 ''P'' ''c'' start = (Inr True, start)"
proof -
  have "open_fails unopenable_env path" for path
    by (simp add: unopenable_env_def)
  then show ?thesis
    by (simp add: Verify_if_Device_is_Used_def example_path_c LockFile_def)
qed

section \<open>The platforms\<close>

lemma string_find_iff: "string_find s pattern pos \<noteq> None \<longleftrightarrow> sublist pattern s"
  by (induction s arbitrary: pos) (auto simp: sublist_Cons_right)

lemma tolower_ascii_lower: "tolower c = ascii_lower c"
  by (cases c) (simp add: tolower_def ascii_lower_def Let_def char_of_def bit_Suc_0_iff)

lemma OpenCL_platform_Initialize_Inr:
  assumes "OpenCL_platform_Initialize env k off pid pref p s = (Inr p', s')"
  shows "key p' = k" "id_offset p' = off" "platform_id p' = pid"
    "platform_name p' = snd (clGetPlatformInfo env pid CL_PLATFORM_NAME)"
    "OpenCL_devices_list_Initialize env pid off (snd (clGetPlatformInfo env pid CL_PLATFORM_NAME))
       (devices_list p) s = (Inr (devices_list p'), s')"
proof -
  obtain r s2 where r: "OpenCL_devices_list_Initialize env pid off
       (snd (clGetPlatformInfo env pid CL_PLATFORM_NAME)) (devices_list p) s = (r, s2)"
    by (cases "OpenCL_devices_list_Initialize env pid off
       (snd (clGetPlatformInfo env pid CL_PLATFORM_NAME)) (devices_list p) s") simp
  have "key p' = k \<and> id_offset p' = off \<and> platform_id p' = pid
      \<and> platform_name p' = snd (clGetPlatformInfo env pid CL_PLATFORM_NAME)
      \<and> r = Inr (devices_list p') \<and> s2 = s'"
    using assms r
    by (cases r)
       (auto simp: OpenCL_platform_Initialize_def Let_def split: prod.splits if_splits)
  then show "key p' = k" "id_offset p' = off" "platform_id p' = pid"
    "platform_name p' = snd (clGetPlatformInfo env pid CL_PLATFORM_NAME)"
    "OpenCL_devices_list_Initialize env pid off (snd (clGetPlatformInfo env pid CL_PLATFORM_NAME))
       (devices_list p) s = (Inr (devices_list p'), s')"
    using r by simp_all
qed

lemma platform_round_Inr:
  assumes "platform_round env pref pid off m s = (Inr m', s')"
  shows "\<exists>k p. vendor_key_of env pid = Inr k
          \<and> OpenCL_Test_Success (fst (clGetPlatformInfo env pid CL_PLATFORM_VENDOR))
          \<and> OpenCL_platform_Initialize env k off pid pref (map_subscript m k) s = (Inr p, s')
          \<and> m' = map_store k p m"
proof -
  obtain err v where q: "clGetPlatformInfo env pid CL_PLATFORM_VENDOR = (err, v)"
    by (cases "clGetPlatformInfo env pid CL_PLATFORM_VENDOR") simp
  have ok: "OpenCL_Test_Success err"
    using assms q by (auto simp: platform_round_def split: if_splits)
  obtain k where k: "platform_vendor_key v = Inr k"
    using assms q ok by (cases "platform_vendor_key v") (auto simp: platform_round_def)
  obtain r s2 where i: "OpenCL_platform_Initialize env k off pid pref (map_subscript m k) s = (r, s2)"
    by (cases "OpenCL_platform_Initialize env k off pid pref (map_subscript m k) s") simp
  obtain p where p: "r = Inr p" "s2 = s'" "m' = map_store k p m"
    using assms q ok k i by (cases r) (auto simp: platform_round_def)
  show ?thesis
    using q ok k i p by (auto simp: vendor_key_of_def)
qed

lemma platform_round_Unknown:
  "OpenCL_Test_Success (fst (clGetPlatformInfo env pid CL_PLATFORM_VENDOR)) \<Longrightarrow>
   vendor_key_of env pid = Inl e \<Longrightarrow> platform_round env pref pid off m s = (Inl e, s)"
  by (cases "clGetPlatformInfo env pid CL_PLATFORM_VENDOR")
     (simp add: platform_round_def vendor_key_of_def)

lemma map_of_map_store: "map_of (map_store k p m) = (map_of m)(k \<mapsto> p)"
  by (induction m) (auto simp: fun_upd_twist)

lemma platforms_loop_spec:
  "i \<le> length tmp \<Longrightarrow>
   platforms_loop env pref tmp i (int i) m s
     = spec_platforms_loop env pref (drop i (zip tmp [0 ..< length tmp])) m s"
proof (induction "length tmp - i" arbitrary: i m s)
  case 0
  then show ?case by (subst platforms_loop.simps) simp
next
  case (Suc n)
  then have i: "i < length tmp" by simp
  have d: "drop i (zip tmp [0 ..< length tmp]) = (tmp ! i, i) # drop (Suc i) (zip tmp [0 ..< length tmp])"
    using i by (simp add: Cons_nth_drop_Suc [symmetric])
  have IH: "platforms_loop env pref tmp (Suc i) (int i + 1) m' s'
     = spec_platforms_loop env pref (drop (Suc i) (zip tmp [0 ..< length tmp])) m' s'" for m' s'
    using Suc.hyps(1) [of "Suc i" m' s'] Suc.hyps(2) i by (simp add: add.commute)
  show ?case
    using i
    by (subst platforms_loop.simps) (simp add: d IH split: prod.splits sum.splits)
qed

lemma spec_platforms_loop_keys:
  "spec_platforms_loop env pref ps m s = (Inr m', s') \<Longrightarrow>
   \<forall>(pid, ix) \<in> set ps. \<exists>k. vendor_key_of env pid = Inr k"
proof (induction ps arbitrary: m s)
  case Nil
  show ?case by simp
next
  case (Cons a ps)
  obtain pid ix where a: "a = (pid, ix)" by (cases a)
  obtain r s1 where r: "platform_round env pref pid (int ix) m s = (r, s1)"
    by (cases "platform_round env pref pid (int ix) m s") simp
  obtain m1 where m1: "r = Inr m1"
    using Cons.prems a r by (cases r) auto
  have rest: "spec_platforms_loop env pref ps m1 s1 = (Inr m', s')"
    using Cons.prems a r m1 by simp
  have "\<exists>k. vendor_key_of env pid = Inr k"
    using platform_round_Inr [OF r [unfolded m1]] by blast
  then show ?case
    using Cons.IH [OF rest] a by simp
qed

lemma spec_platforms_loop_entries:
  "spec_platforms_loop env pref ps m s = (Inr m', s') \<Longrightarrow>
   (\<forall>k. (\<forall>(pid, ix) \<in> set ps. vendor_key_of env pid \<noteq> Inr k) \<longrightarrow> map_of m' k = map_of m k)
   \<and> (\<forall>k pre pid ix post.
         ps = pre @ (pid, ix) # post \<and> vendor_key_of env pid = Inr k
         \<and> (\<forall>(q, j) \<in> set post. vendor_key_of env q \<noteq> Inr k) \<longrightarrow>
         (\<exists>p. map_of m' k = Some p \<and> key p = k \<and> platform_id p = pid \<and> id_offset p = int ix))"
proof (induction ps arbitrary: m s)
  case Nil
  then show ?case by simp
next
  case (Cons a ps)
  obtain pid0 ix0 where a: "a = (pid0, ix0)" by (cases a)
  obtain r s1 where r: "platform_round env pref pid0 (int ix0) m s = (r, s1)"
    by (cases "platform_round env pref pid0 (int ix0) m s") simp
  obtain m1 where m1: "r = Inr m1"
    using Cons.prems a r by (cases r) auto
  have rest: "spec_platforms_loop env pref ps m1 s1 = (Inr m', s')"
    using Cons.prems a r m1 by simp
  obtain k0 p0 where k0: "vendor_key_of env pid0 = Inr k0"
    and p0: "OpenCL_platform_Initialize env k0 (int ix0) pid0 pref (map_subscript m k0) s = (Inr p0, s1)"
    and st: "m1 = map_store k0 p0 m"
    using platform_round_Inr [OF r [unfolded m1]] by blast
  note P = OpenCL_platform_Initialize_Inr(1,2,3) [OF p0]
  note IH = Cons.IH [OF rest]
  have IH1: "map_of m' k = map_of m1 k" if "\<forall>(pid, ix) \<in> set ps. vendor_key_of env pid \<noteq> Inr k" for k
    using IH that by blast
  have IH2: "\<exists>p. map_of m' k = Some p \<and> key p = k \<and> platform_id p = pid \<and> id_offset p = int ix"
    if "ps = pre @ (pid, ix) # post" "vendor_key_of env pid = Inr k"
      "\<forall>(q, j) \<in> set post. vendor_key_of env q \<noteq> Inr k" for k pre pid ix post
    using IH that by blast
  show ?case
  proof (intro conjI allI impI)
    fix k
    assume no: "\<forall>(pid, ix) \<in> set (a # ps). vendor_key_of env pid \<noteq> Inr k"
    then have "k \<noteq> k0" using a k0 by auto
    moreover have "map_of m' k = map_of m1 k" using IH1 no by simp
    ultimately show "map_of m' k = map_of m k" by (simp add: st map_of_map_store)
  next
    fix k pre pid ix post
    assume h: "a # ps = pre @ (pid, ix) # post \<and> vendor_key_of env pid = Inr k
         \<and> (\<forall>(q, j) \<in> set post. vendor_key_of env q \<noteq> Inr k)"
    show "\<exists>p. map_of m' k = Some p \<and> key p = k \<and> platform_id p = pid \<and> id_offset p = int ix"
    proof (cases pre)
      case Nil
      then have e: "pid = pid0" "ix = ix0" "post = ps" using h a by simp_all
      then have "k = k0" using h k0 by simp
      moreover have "map_of m' k = map_of m1 k" using IH1 [of k] h e by simp
      ultimately show ?thesis using P e by (simp add: st map_of_map_store)
    next
      case (Cons b pre')
      then have "ps = pre' @ (pid, ix) # post" using h by simp
      then show ?thesis using IH2 h by blast
    qed
  qed
qed

lemma Initialize_platforms_loop:
  assumes "OpenCL_platforms_list_Initialize env pref pl s = (Inr pl', s')"
  shows "platforms_loop env pref (snd (clGetPlatformIDs env)) 0 0 (platforms pl) s
           = (Inr (platforms pl'), s')"
proof -
  obtain err ids where q: "clGetPlatformIDs env = (err, ids)"
    by (cases "clGetPlatformIDs env") simp
  obtain r s2 where r: "platforms_loop env pref ids 0 0 (platforms pl) s = (r, s2)"
    by (cases "platforms_loop env pref ids 0 0 (platforms pl) s") simp
  show ?thesis
    using assms q r
    by (cases r) (auto simp: OpenCL_platforms_list_Initialize_def Let_def split: if_splits)
qed

lemma zip_upt_split:
  assumes "i < length ids"
  shows "zip ids [0 ..< length ids]
           = take i (zip ids [0 ..< length ids]) @ (ids ! i, i) # drop (Suc i) (zip ids [0 ..< length ids])"
    and "\<forall>(q, j) \<in> set (drop (Suc i) (zip ids [0 ..< length ids])). i < j \<and> j < length ids \<and> q = ids ! j"
proof -
  let ?ps = "zip ids [0 ..< length ids]"
  have a: "?ps = take i ?ps @ ?ps ! i # drop (Suc i) ?ps"
    by (rule id_take_nth_drop) (simp add: assms)
  have b: "?ps ! i = (ids ! i, i)"
    using assms by simp
  show "?ps = take i ?ps @ (ids ! i, i) # drop (Suc i) ?ps"
    unfolding b [symmetric] by (rule a)
  show "\<forall>(q, j) \<in> set (drop (Suc i) ?ps). i < j \<and> j < length ids \<and> q = ids ! j"
  proof (clarify)
    fix q j assume "(q, j) \<in> set (drop (Suc i) ?ps)"
    then obtain t where t: "t < length (drop (Suc i) ?ps)" "drop (Suc i) ?ps ! t = (q, j)"
      by (auto simp: in_set_conv_nth)
    have lt: "Suc i + t < length ids" using t(1) by simp
    have "drop (Suc i) ?ps ! t = (ids ! (Suc i + t), Suc i + t)"
      using lt by simp
    then have "j = Suc i + t" "q = ids ! j" using t(2) by auto
    then show "i < j \<and> j < length ids \<and> q = ids ! j"
      using lt by linarith
  qed
qed

section \<open>The example platforms: classification and registry\<close>

lemma example_path_c1: "get_lock_filename 0 1 ''P'' ''c'' = Inr ''/tmp/gpuPlatform__1__Device__0__P__c_.lck''"
  by (subst get_lock_filename_fits) (simp_all add: path_eval)

lemma example_path_g1: "get_lock_filename 1 1 ''P'' ''g'' = Inr ''/tmp/gpuPlatform__1__Device__1__P__g_.lck''"
  by (subst get_lock_filename_fits) (simp_all add: path_eval)

lemma example_path_h1: "get_lock_filename 2 1 ''P'' ''h'' = Inr ''/tmp/gpuPlatform__1__Device__2__P__h_.lck''"
  by (subst get_lock_filename_fits) (simp_all add: path_eval)

lemma nvidia_key: "platform_vendor_key ''NVIDIA Corporation'' = Inr ''nvidia''"
  by (simp add: platform_vendor_key_def tolower_ascii_lower ascii_lower_def OPENCL_PLATFORMS_NVIDIA_def)

lemma unknown_key: "platform_vendor_key ''Portable Computing Language'' = Inl Unknown_Platform"
  by (simp add: platform_vendor_key_def tolower_ascii_lower ascii_lower_def)

lemma twin_Initialize:
  "\<exists>pl' s'. OpenCL_platforms_list_Initialize twin_env ''-1'' OpenCL_platforms_list_new start
      = (Inr pl', s')"
  by (simp add: OpenCL_platforms_list_Initialize_def platforms_loop.simps platform_round_def
      nvidia_key map_subscript_def OpenCL_platform_Initialize_def OpenCL_platform_new_def
      OpenCL_devices_list_Initialize_def example_eval example_path_c1 example_path_g1 example_path_h1
      store_parent_platform_def list_sort_def OpenCL_device_less_def set_context_loop_step
      set_context_loop_stop Unlock_def
      twin_env_def example_env_def OpenCL_platforms_list_new_def OpenCL_device_new_def)

section \<open>The lockable flag\<close>

lemma Lock_keeps_lockable:
  "Lock env d s = (Inr d', s') \<Longrightarrow> is_lockable d' = is_lockable d"
  by (auto simp: Lock_def Let_def split: option.splits sum.splits prod.splits if_splits)

lemma reachable_lockable: "device_reachable env d \<Longrightarrow> is_lockable d"
proof (induction rule: device_reachable.induct)
  case constructed
  show ?case by (simp add: OpenCL_device_new_def)
next
  case (after_Set_Information d id' device' platform_id_offset platform_name' gpu s d' s')
  then show ?case using Set_Information_Inr(7) by metis
next
  case (after_parent_platform d parent)
  then show ?case by simp
next
  case (after_Set_Context d s err d' s')
  then show ?case by (auto simp: Set_Context_eq)
next
  case (after_Lock d s d' s')
  then show ?case using Lock_keeps_lockable by metis
next
  case (after_Unlock d s d' s')
  then show ?case by (auto simp: Unlock_def split: if_splits)
qed

lemma Initialize_lockable:
  assumes "\<forall>d\<in>set (device_list l). is_lockable d"
    and "OpenCL_devices_list_Initialize env pid off nm l s = (Inr l', s')"
  shows "(\<forall>d\<in>set (device_list l'). is_lockable d)
       \<and> (\<exists>i. preferred_device l' = Some i \<and> i < length (device_list l'))"
proof -
  obtain l1 s1 i dl4 where
    e: "enumerate_devices env pid off nm l s = (Inr (l1, False), s1)" and
    loop: "set_context_loop env 0 (list_sort (store_parent_platform off nm (device_list l1))) s1
           = (Some i, dl4, s')" and
    l': "l' = l1\<lparr>device_list := dl4, preferred_device := Some i, is_initialized := True\<rparr>"
    using Initialize_Inr [OF assms(2)] by blast
  define cpus where "cpus = snd (clGetDeviceIDs env pid CL_DEVICE_TYPE_CPU)"
  define gpus where "gpus = snd (clGetDeviceIDs env pid CL_DEVICE_TYPE_GPU)"
  define n where "n = length cpus + length gpus"
  define dl0 where "dl0 = take n (device_list l) @ replicate (n - length (device_list l)) OpenCL_device_new"
  note E = enumerate_devices_devices [OF e cpus_def gpus_def]
  have dl0: "is_lockable (dl0 ! k)" if "k < n" for k
  proof -
    have "length dl0 = n" by (simp add: dl0_def)
    then have "dl0 ! k \<in> set dl0" using that by simp
    then have "dl0 ! k \<in> set (device_list l) \<or> dl0 ! k = OpenCL_device_new"
      by (auto simp: dl0_def dest: in_set_takeD)
    then show ?thesis using assms(1) by (auto simp: OpenCL_device_new_def)
  qed
  have l1: "is_lockable (device_list l1 ! k)" if k: "k < n" for k
  proof (cases "k < length cpus")
    case True
    obtain d0 where d0: "is_lockable d0 = is_lockable (dl0 ! k)"
      "Set_Information env (int k) (cpus ! k) off nm False d0 s1 = (Inr (device_list l1 ! k), s1)"
      using E(5) [OF True] unfolding dl0_def n_def by blast
    show ?thesis using Set_Information_Inr(7) [OF d0(2)] d0(1) dl0 [OF k] by simp
  next
    case False
    define j where "j = k - length cpus"
    have j: "j < length gpus" "k = length cpus + j" using False k by (simp_all add: j_def n_def)
    obtain d0 where d0: "is_lockable d0 = is_lockable (dl0 ! (length cpus + j))"
      "Set_Information env (int (length cpus + j)) (gpus ! j) off nm True d0 s1
         = (Inr (device_list l1 ! (length cpus + j)), s1)"
      using E(6) [OF j(1)] unfolding dl0_def n_def by blast
    show ?thesis using Set_Information_Inr(7) [OF d0(2)] d0(1) dl0 [OF k] j by simp
  qed
  have all1: "\<forall>d\<in>set (device_list l1). is_lockable d"
    using l1 E(3) by (auto simp: in_set_conv_nth n_def)
  let ?dl3 = "list_sort (store_parent_platform off nm (device_list l1))"
  have all3: "\<forall>d\<in>set ?dl3. is_lockable d"
    using all1 by (auto simp: set_list_sort store_parent_platform_def)
  have "map is_lockable dl4 = map is_lockable ?dl3"
    by (rule erased_map) (use set_context_loop_same [OF loop] in simp_all)
  then have "set (map is_lockable dl4) = set (map is_lockable ?dl3)" by simp
  then have all4: "\<forall>d\<in>set dl4. is_lockable d"
    using all3 by (metis (no_types, lifting) image_iff list.set_map)
  have "i < length dl4"
    using set_context_loop_Some [OF loop] set_context_loop_same [OF loop] by simp
  then show ?thesis using all4 l' by simp
qed

lemma Lock_Best_Device_lockable:
  assumes "is_lockable (device_list (devices_list p) ! i)"
    and "preferred_device (devices_list p) = Some i"
  shows "Lock_Best_Device env p s =
           (case Lock env (device_list (devices_list p) ! i) s of
              (Inl e, s') \<Rightarrow> (Inl e, s')
            | (Inr d', s') \<Rightarrow>
                (Inr (p\<lparr>devices_list := (devices_list p)
                        \<lparr>device_list := (device_list (devices_list p))[i := d']\<rparr>\<rparr>), s'))"
  using assms
  by (simp add: Lock_Best_Device_def Prefered_OpenCL_def Is_Lockable_def
      cong: prod.case_cong sum.case_cong)

lemma example_platform_Initialize:
  "OpenCL_platform_Initialize example_env ''nvidia'' 0 7 ''-1'' OpenCL_platform_new start
     = (Inr (OpenCL_platform_new
              \<lparr>key := ''nvidia'', id_offset := 0, platform_id := 7,
               platform_profile := ''P'', platform_version := ''P'', platform_name := ''P'',
               platform_vendor := ''NVIDIA Corporation'', platform_extensions := ''P'',
               devices_list := OpenCL_devices_list_new
                 \<lparr>nb_gpu := 2, nb_cpu := 1,
                  device_list := [example_gpu0\<lparr>dev_context := 0\<rparr>,
                                  example_cpu\<lparr>dev_context := 110\<rparr>, example_gpu1],
                  preferred_device := Some 1, is_initialized := True\<rparr>\<rparr>),
        start\<lparr>context_calls := [20, 10]\<rparr>)"
proof -
  have q: "clGetPlatformInfo example_env 7 CL_PLATFORM_PROFILE = (0, ''P'')"
    "clGetPlatformInfo example_env 7 CL_PLATFORM_VERSION = (0, ''P'')"
    "clGetPlatformInfo example_env 7 CL_PLATFORM_NAME = (0, ''P'')"
    "clGetPlatformInfo example_env 7 CL_PLATFORM_VENDOR = (0, ''NVIDIA Corporation'')"
    "clGetPlatformInfo example_env 7 CL_PLATFORM_EXTENSIONS = (0, ''P'')"
    by (simp_all add: example_env_def)
  have l: "devices_list OpenCL_platform_new = OpenCL_devices_list_new"
    by (simp add: OpenCL_platform_new_def)
  show ?thesis
    by (simp add: OpenCL_platform_Initialize_def q l example_Initialize OpenCL_Test_Success_def
        CL_SUCCESS_def)
qed

lemma example_cpu_Lock:
  "Lock example_env (example_cpu\<lparr>dev_context := 110\<rparr>) (start\<lparr>context_calls := [20, 10]\<rparr>)
     = (Inr (example_cpu\<lparr>dev_context := 110, lock_file := 3, file_locked := True\<rparr>),
        start\<lparr>context_calls := [20, 10],
              held_locks := [(3, ''/tmp/gpuPlatform__0__Device__0__P__c_.lck'')]\<rparr>)"
  by (simp add: Lock_def example_cpu_def example_device_def example_path_c LockFile_def flock_def
      already_locked_def example_env_def start_def new_descriptor_def Let_def OpenCL_device_new_def)

section \<open>Claim C1: the preferred device\<close>

text \<open>
  Claim C1. Once the devices are discovered and not all of them are in use, \<open>Initialize\<close>
  walks the sorted list from its front and calls \<open>Set_Context()\<close> on each device. When
  context creation fails on every device, \<open>Initialize\<close> aborts, having tried them all
  in order. Otherwise the preferred device is the first one in sorted order on which
  context creation succeeds: \<open>clCreateContext\<close> has been called on the devices up to
  it, in order, and on no other; the devices behind it are untouched, and the list
  holds the sorted devices with nothing but the context fields changed.
\<close>

theorem preferred_device_is_first_success:
  assumes "enumerate_devices env pid off nm l s = (Inr (l1, False), s1)"
    and "dl3 = list_sort (store_parent_platform off nm (device_list l1))"
  shows "((\<forall>k < length dl3. fst (clCreateContext env (device (dl3 ! k))) \<noteq> CL_SUCCESS) \<longrightarrow>
            fst (OpenCL_devices_list_Initialize env pid off nm l s) = Inl Cannot_Set_Context
          \<and> context_calls (snd (OpenCL_devices_list_Initialize env pid off nm l s))
              = context_calls s @ map device dl3)
       \<and> (\<forall>i. i < length dl3
              \<and> fst (clCreateContext env (device (dl3 ! i))) = CL_SUCCESS
              \<and> (\<forall>k < i. fst (clCreateContext env (device (dl3 ! k))) \<noteq> CL_SUCCESS) \<longrightarrow>
            (\<exists>l' s'. OpenCL_devices_list_Initialize env pid off nm l s = (Inr l', s')
               \<and> preferred_device l' = Some i
               \<and> map (dev_context_update (\<lambda>c. 0)) (device_list l')
                   = map (dev_context_update (\<lambda>c. 0)) dl3
               \<and> context_calls s' = context_calls s @ map device (take (Suc i) dl3)
               \<and> (\<forall>k. i < k \<longrightarrow> device_list l' ! k = dl3 ! k)))"
proof -
  obtain q dl4 s2 where loop: "set_context_loop env 0 dl3 s1 = (q, dl4, s2)"
    by (cases "set_context_loop env 0 dl3 s1") auto
  have init: "OpenCL_devices_list_Initialize env pid off nm l s =
     (case q of
        None \<Rightarrow> (Inl Cannot_Set_Context, s2)
      | Some i \<Rightarrow> (Inr (l1\<lparr>device_list := dl4, preferred_device := Some i, is_initialized := True\<rparr>), s2))"
    using Initialize_after_enumeration [OF assms(1)] loop assms(2)
    by (simp split: option.splits)
  have calls1: "context_calls s1 = context_calls s"
    using enumerate_devices_context_calls [of env pid off nm l s] assms(1) by simp
  show ?thesis
  proof (intro conjI allI impI)
    assume none: "\<forall>k < length dl3. fst (clCreateContext env (device (dl3 ! k))) \<noteq> CL_SUCCESS"
    have q: "q = None"
    proof (cases q)
      case (Some i)
      then show ?thesis using set_context_loop_Some [of env 0 dl3 s1 i dl4 s2] loop none by auto
    qed simp
    show "fst (OpenCL_devices_list_Initialize env pid off nm l s) = Inl Cannot_Set_Context"
      using init q by simp
    show "context_calls (snd (OpenCL_devices_list_Initialize env pid off nm l s))
              = context_calls s @ map device dl3"
      using init q set_context_loop_None [of env 0 dl3 s1 dl4 s2] loop calls1 by simp
  next
    fix i
    assume i: "i < length dl3
              \<and> fst (clCreateContext env (device (dl3 ! i))) = CL_SUCCESS
              \<and> (\<forall>k < i. fst (clCreateContext env (device (dl3 ! k))) \<noteq> CL_SUCCESS)"
    have "q \<noteq> None"
      using set_context_loop_None [of env 0 dl3 s1 dl4 s2] loop i by auto
    then obtain j where q: "q = Some j" by auto
    note S = set_context_loop_Some [of env 0 dl3 s1 j dl4 s2, unfolded loop q, OF refl]
    have "j = i"
    proof (rule ccontr)
      assume "j \<noteq> i"
      then consider "j < i" | "i < j" by linarith
      then show False
      proof cases
        case 1 then show ?thesis using S i by auto
      next
        case 2 then show ?thesis using S i by auto
      qed
    qed
    note same = set_context_loop_same [of env 0 dl3 s1 "Some j" dl4 s2, unfolded loop q, OF refl]
    show "\<exists>l' s'. OpenCL_devices_list_Initialize env pid off nm l s = (Inr l', s')
               \<and> preferred_device l' = Some i
               \<and> map (dev_context_update (\<lambda>c. 0)) (device_list l')
                   = map (dev_context_update (\<lambda>c. 0)) dl3
               \<and> context_calls s' = context_calls s @ map device (take (Suc i) dl3)
               \<and> (\<forall>k. i < k \<longrightarrow> device_list l' ! k = dl3 ! k)"
      using init q \<open>j = i\<close> S same calls1 by simp
  qed
qed

theorem preferred_device_witness:
  "enumerate_devices example_env 7 0 ''P'' OpenCL_devices_list_new start
     = (Inr (OpenCL_devices_list_new
              \<lparr>nb_gpu := 2, nb_cpu := 1,
               device_list := map (parent_platform_update (\<lambda>p. None))
                                [example_cpu, example_gpu0, example_gpu1]\<rparr>, False), start)
   \<and> fst (clCreateContext example_env (device ([example_gpu0, example_cpu, example_gpu1] ! 0))) \<noteq> CL_SUCCESS
   \<and> fst (clCreateContext example_env (device ([example_gpu0, example_cpu, example_gpu1] ! 1))) = CL_SUCCESS
   \<and> (\<exists>l' s'. OpenCL_devices_list_Initialize example_env 7 0 ''P'' OpenCL_devices_list_new start
                 = (Inr l', s')
        \<and> preferred_device l' = Some 1 \<and> context_calls s' = [20, 10]
        \<and> device_list l' ! 2 = example_gpu1)
   \<and> fst (clCreateContext failing_env (device ([example_gpu0, example_cpu, example_gpu1] ! 0)))
           \<noteq> CL_SUCCESS
   \<and> fst (clCreateContext failing_env (device ([example_gpu0, example_cpu, example_gpu1] ! 1)))
           \<noteq> CL_SUCCESS
   \<and> fst (clCreateContext failing_env (device ([example_gpu0, example_cpu, example_gpu1] ! 2)))
           \<noteq> CL_SUCCESS
   \<and> fst (OpenCL_devices_list_Initialize failing_env 7 0 ''P'' OpenCL_devices_list_new start)
       = Inl Cannot_Set_Context
   \<and> context_calls (snd (OpenCL_devices_list_Initialize failing_env 7 0 ''P''
        OpenCL_devices_list_new start)) = [20, 10, 21]"
proof -
  have ok: "fst (clCreateContext example_env (device ([example_gpu0, example_cpu, example_gpu1] ! 0))) \<noteq> CL_SUCCESS"
    "fst (clCreateContext example_env (device ([example_gpu0, example_cpu, example_gpu1] ! 1))) = CL_SUCCESS"
    by (simp_all add: example_env_def example_handles CL_SUCCESS_def)
  have bad: "\<forall>k < length [example_gpu0, example_cpu, example_gpu1].
         fst (clCreateContext failing_env (device ([example_gpu0, example_cpu, example_gpu1] ! k)))
           \<noteq> CL_SUCCESS"
    by (simp add: failing_env_def example_env_def CL_SUCCESS_def)
  have srt: "[example_gpu0, example_cpu, example_gpu1]
      = list_sort (store_parent_platform 0 ''P''
          (device_list (OpenCL_devices_list_new
              \<lparr>nb_gpu := 2, nb_cpu := 1,
               device_list := map (parent_platform_update (\<lambda>p. None))
                                [example_cpu, example_gpu0, example_gpu1]\<rparr>)))"
    using example_sorted by simp
  note t1 = preferred_device_is_first_success [OF example_enumerate srt]
  note t2 = preferred_device_is_first_success [OF failing_enumerate srt]
  have a: "\<exists>l' s'. OpenCL_devices_list_Initialize example_env 7 0 ''P'' OpenCL_devices_list_new start
                 = (Inr l', s')
        \<and> preferred_device l' = Some 1 \<and> context_calls s' = [20, 10]
        \<and> device_list l' ! 2 = example_gpu1"
    using t1 [THEN conjunct2, rule_format, of 1] ok
    by (auto simp: start_def example_handles)
  have b: "fst (OpenCL_devices_list_Initialize failing_env 7 0 ''P'' OpenCL_devices_list_new start)
       = Inl Cannot_Set_Context
   \<and> context_calls (snd (OpenCL_devices_list_Initialize failing_env 7 0 ''P''
        OpenCL_devices_list_new start)) = [20, 10, 21]"
    using t2 [THEN conjunct1] bad
    by (simp add: start_def example_handles)
  have bad3: "fst (clCreateContext failing_env (device ([example_gpu0, example_cpu, example_gpu1] ! 0)))
           \<noteq> CL_SUCCESS"
    "fst (clCreateContext failing_env (device ([example_gpu0, example_cpu, example_gpu1] ! 1)))
           \<noteq> CL_SUCCESS"
    "fst (clCreateContext failing_env (device ([example_gpu0, example_cpu, example_gpu1] ! 2)))
           \<noteq> CL_SUCCESS"
    by (simp_all add: failing_env_def example_env_def CL_SUCCESS_def)
  show ?thesis
    using example_enumerate ok a b bad3 by blast
qed

section \<open>Claim C2: the preference order\<close>

text \<open>
  Claim C2. \<open>operator<\<close> puts a device that is not in use before one that is, whatever
  their compute units, and between two devices of the same in-use status the one with
  strictly more compute units first. The sorted list holds the same devices as the
  list given to \<open>sort\<close>; in it no device in use stands before a free one, and among
  devices of the same in-use status the compute units never increase. The same holds
  of the list that \<open>Initialize\<close> leaves behind when it returns.
\<close>

theorem device_preference_order:
  "(device_is_in_use a \<noteq> device_is_in_use b
      \<longrightarrow> (OpenCL_device_less a b \<longleftrightarrow> \<not> device_is_in_use a))
   \<and> (device_is_in_use a = device_is_in_use b
      \<longrightarrow> (OpenCL_device_less a b \<longleftrightarrow> max_compute_units b < max_compute_units a))
   \<and> mset (list_sort ds) = mset ds
   \<and> (\<forall>i j. i < j \<and> j < length (list_sort ds) \<longrightarrow>
         (\<not> device_is_in_use (list_sort ds ! j) \<longrightarrow> \<not> device_is_in_use (list_sort ds ! i))
       \<and> (device_is_in_use (list_sort ds ! i) = device_is_in_use (list_sort ds ! j)
            \<longrightarrow> max_compute_units (list_sort ds ! j) \<le> max_compute_units (list_sort ds ! i)))
   \<and> (\<forall>l' s' i j. OpenCL_devices_list_Initialize env pid off nm l s = (Inr l', s')
         \<and> i < j \<and> j < length (device_list l') \<longrightarrow>
         (\<not> device_is_in_use (device_list l' ! j) \<longrightarrow> \<not> device_is_in_use (device_list l' ! i))
       \<and> (device_is_in_use (device_list l' ! i) = device_is_in_use (device_list l' ! j)
            \<longrightarrow> max_compute_units (device_list l' ! j) \<le> max_compute_units (device_list l' ! i)))"
proof (intro conjI allI impI)
  show "OpenCL_device_less a b \<longleftrightarrow> \<not> device_is_in_use a"
    if "device_is_in_use a \<noteq> device_is_in_use b"
    using that by (auto simp: OpenCL_device_less_iff)
  show "OpenCL_device_less a b \<longleftrightarrow> max_compute_units b < max_compute_units a"
    if "device_is_in_use a = device_is_in_use b"
    using that by (auto simp: OpenCL_device_less_iff)
  show "mset (list_sort ds) = mset ds"
    by (rule mset_list_sort)
next
  fix i j
  assume ij: "i < j \<and> j < length (list_sort ds)"
  note ord = sorted_order [OF sorted_list_sort [of ds], of i j]
  show "\<not> device_is_in_use (list_sort ds ! i)" if "\<not> device_is_in_use (list_sort ds ! j)"
    using ord ij that by blast
  show "max_compute_units (list_sort ds ! j) \<le> max_compute_units (list_sort ds ! i)"
    if "device_is_in_use (list_sort ds ! i) = device_is_in_use (list_sort ds ! j)"
    using ord ij that by blast
next
  fix l' s' i j
  assume h: "OpenCL_devices_list_Initialize env pid off nm l s = (Inr l', s')
         \<and> i < j \<and> j < length (device_list l')"
  obtain l1 s1 k dl4 where
    loop: "set_context_loop env 0 (list_sort (store_parent_platform off nm (device_list l1))) s1
           = (Some k, dl4, s')" and
    l': "l' = l1\<lparr>device_list := dl4, preferred_device := Some k, is_initialized := True\<rparr>"
    using Initialize_Inr [OF conjunct1 [OF h]] by blast
  let ?dl3 = "list_sort (store_parent_platform off nm (device_list l1))"
  note same = set_context_loop_same [OF loop]
  have flags: "map device_is_in_use dl4 = map device_is_in_use ?dl3"
    by (rule erased_map) (use same in simp_all)
  have units: "map max_compute_units dl4 = map max_compute_units ?dl3"
    by (rule erased_map) (use same in simp_all)
  have len: "length dl4 = length ?dl3" using same by simp
  have ij: "i < j" "j < length ?dl3" "i < length ?dl3"
    using h l' len by simp_all
  have eqs: "device_is_in_use (dl4 ! i) = device_is_in_use (?dl3 ! i)"
    "device_is_in_use (dl4 ! j) = device_is_in_use (?dl3 ! j)"
    "max_compute_units (dl4 ! i) = max_compute_units (?dl3 ! i)"
    "max_compute_units (dl4 ! j) = max_compute_units (?dl3 ! j)"
    using ij len flags units by (metis nth_map)+
  note ord = sorted_order [OF sorted_list_sort [of "store_parent_platform off nm (device_list l1)"]
      ij(1,2)]
  show "\<not> device_is_in_use (device_list l' ! i)" if "\<not> device_is_in_use (device_list l' ! j)"
    using ord eqs that l' by simp
  show "max_compute_units (device_list l' ! j) \<le> max_compute_units (device_list l' ! i)"
    if "device_is_in_use (device_list l' ! i) = device_is_in_use (device_list l' ! j)"
    using ord eqs that l' by simp
qed

theorem device_preference_order_witness:
  "device_is_in_use example_gpu0 \<noteq> device_is_in_use example_gpu1
   \<and> OpenCL_device_less example_gpu0 example_gpu1
   \<and> device_is_in_use example_gpu0 = device_is_in_use example_cpu
   \<and> OpenCL_device_less example_gpu0 example_cpu
   \<and> list_sort [example_cpu, example_gpu0, example_gpu1]
       = [example_gpu0, example_cpu, example_gpu1]
   \<and> (0::nat) < 1 \<and> 1 < length (list_sort [example_cpu, example_gpu0, example_gpu1])
   \<and> \<not> device_is_in_use (list_sort [example_cpu, example_gpu0, example_gpu1] ! 1)
   \<and> \<not> device_is_in_use (list_sort [example_cpu, example_gpu0, example_gpu1] ! 0)
   \<and> max_compute_units (list_sort [example_cpu, example_gpu0, example_gpu1] ! 1)
       \<le> max_compute_units (list_sort [example_cpu, example_gpu0, example_gpu1] ! 0)
   \<and> (\<exists>l' s'. OpenCL_devices_list_Initialize example_env 7 0 ''P'' OpenCL_devices_list_new start
                  = (Inr l', s')
         \<and> (1::nat) < 2 \<and> 2 < length (device_list l')
         \<and> device_is_in_use (device_list l' ! 2)
         \<and> \<not> device_is_in_use (device_list l' ! 1)
         \<and> \<not> device_is_in_use (device_list l' ! 0)
         \<and> max_compute_units (device_list l' ! 1) \<le> max_compute_units (device_list l' ! 0))"
proof -
  have flags: "\<not> device_is_in_use example_gpu0" "\<not> device_is_in_use example_cpu"
    "device_is_in_use example_gpu1"
    "max_compute_units example_cpu = 4" "max_compute_units example_gpu0 = 16"
    by (simp_all add: example_cpu_def example_gpu0_def example_gpu1_def example_device_def
        OpenCL_device_new_def)
  note t1 = device_preference_order [of example_gpu0 example_gpu1
      "[example_cpu, example_gpu0, example_gpu1]"]
  note t2 = device_preference_order [of example_gpu0 example_cpu
      "[example_cpu, example_gpu0, example_gpu1]"]
  have a: "OpenCL_device_less example_gpu0 example_gpu1"
    using t1 flags by simp
  have b: "OpenCL_device_less example_gpu0 example_cpu"
    using t2 flags by simp
  have c: "\<not> device_is_in_use (list_sort [example_cpu, example_gpu0, example_gpu1] ! 1)
         \<longrightarrow> \<not> device_is_in_use (list_sort [example_cpu, example_gpu0, example_gpu1] ! 0)"
    "device_is_in_use (list_sort [example_cpu, example_gpu0, example_gpu1] ! 0)
       = device_is_in_use (list_sort [example_cpu, example_gpu0, example_gpu1] ! 1)
     \<longrightarrow> max_compute_units (list_sort [example_cpu, example_gpu0, example_gpu1] ! 1)
       \<le> max_compute_units (list_sort [example_cpu, example_gpu0, example_gpu1] ! 0)"
    using t1 [THEN conjunct2, THEN conjunct2, THEN conjunct2, THEN conjunct1, rule_format, of 0 1]
    by (simp_all add: length_list_sort)
  define l' where "l' = OpenCL_devices_list_new
              \<lparr>nb_gpu := 2, nb_cpu := 1,
               device_list := [example_gpu0\<lparr>dev_context := 0\<rparr>,
                               example_cpu\<lparr>dev_context := 110\<rparr>, example_gpu1],
               preferred_device := Some 1, is_initialized := True\<rparr>"
  have init: "OpenCL_devices_list_Initialize example_env 7 0 ''P'' OpenCL_devices_list_new start
      = (Inr l', start\<lparr>context_calls := [20, 10]\<rparr>)"
    unfolding l'_def by (rule example_Initialize)
  have len: "2 < length (device_list l')"
    "\<not> device_is_in_use (device_list l' ! 1)" "device_is_in_use (device_list l' ! 2)"
    using flags by (simp_all add: l'_def)
  note t3 = device_preference_order [of example_gpu0 example_gpu1 "[]" example_env 7 0 "''P''"
      OpenCL_devices_list_new start]
  have first: "\<not> device_is_in_use (device_list l' ! 0)"
    using t3 [THEN conjunct2, THEN conjunct2, THEN conjunct2, THEN conjunct2, rule_format,
        of l' "start\<lparr>context_calls := [20, 10]\<rparr>" 0 1] init len by simp
  have units: "max_compute_units (device_list l' ! 1) \<le> max_compute_units (device_list l' ! 0)"
    using t3 [THEN conjunct2, THEN conjunct2, THEN conjunct2, THEN conjunct2, rule_format,
        of l' "start\<lparr>context_calls := [20, 10]\<rparr>" 0 1] init len first by simp
  have final: "\<exists>l' s'. OpenCL_devices_list_Initialize example_env 7 0 ''P'' OpenCL_devices_list_new start
                  = (Inr l', s')
         \<and> (1::nat) < 2 \<and> 2 < length (device_list l')
         \<and> device_is_in_use (device_list l' ! 2)
         \<and> \<not> device_is_in_use (device_list l' ! 1)
         \<and> \<not> device_is_in_use (device_list l' ! 0)
         \<and> max_compute_units (device_list l' ! 1) \<le> max_compute_units (device_list l' ! 0)"
    using init len first units by (intro exI [of _ l'] exI [of _ "start\<lparr>context_calls := [20, 10]\<rparr>"]) simp
  show ?thesis
    using a b c flags final by (simp add: example_list_sort)
qed

section \<open>Claim C3: failures of the lock attempt\<close>

text \<open>
  Claim C3 says that the probe marks a device in use exactly when the lock is already
  held. In the code \<open>LockFile\<close> returns -1 for every failure and the probe reads -1 as
  "in use". Here the lock file cannot be opened and nobody holds its lock, yet the probe
  answers that the device is in use.
\<close>

theorem probe_in_use_without_lock_held:
  "get_lock_filename 0 0 ''P'' ''c'' = Inr ''/tmp/gpuPlatform__0__Device__0__P__c_.lck''
   \<and> \<not> already_locked unopenable_env start ''/tmp/gpuPlatform__0__Device__0__P__c_.lck''
   \<and> Verify_if_Device_is_Used unopenable_env 0 0 ''P'' ''c'' start = (Inr True, start)"
proof -
  have "\<not> already_locked unopenable_env start ''/tmp/gpuPlatform__0__Device__0__P__c_.lck''"
    by (simp add: already_locked_def unopenable_env_def start_def)
  then show ?thesis
    using example_path_c unopenable_probe by blast
qed

text \<open>
  Claim C3 as amended. For a device whose lock path is formed, the probe marks it in use
  exactly when the lock attempt fails, for whatever reason: the file cannot be opened,
  the lock is already held (which is when \<open>flock\<close> would block), or \<open>flock\<close> fails
  otherwise; it marks the device free exactly when the attempt succeeds. In both cases
  the process holds the same locks after the probe as before. In \<open>Lock()\<close> each of these
  failures, "already held" included, aborts the process; on success the device keeps the
  descriptor and holds the lock.
\<close>

theorem probe_marks_any_failure_in_use:
  assumes "get_lock_filename dev off pn dn = Inr path"
  shows "Verify_if_Device_is_Used env dev off pn dn s
           = (Inr (open_fails env path \<or> flock env s path \<noteq> Flock_Success), s)
       \<and> (flock env s path = EWOULDBLOCK \<longleftrightarrow> already_locked env s path)
       \<and> (\<forall>d. parent_platform d = Some (off, pn) \<and> dev_id d = dev \<and> dev_name d = dn \<longrightarrow>
            (if open_fails env path \<or> flock env s path \<noteq> Flock_Success
             then Lock env d s = (Inl Lock_Error, s)
             else Lock env d s
                    = (Inr (d\<lparr>lock_file := new_descriptor s, file_locked := True\<rparr>),
                       s\<lparr>held_locks := (new_descriptor s, path) # held_locks s\<rparr>)))"
proof (intro conjI allI impI)
  show "Verify_if_Device_is_Used env dev off pn dn s
           = (Inr (open_fails env path \<or> flock env s path \<noteq> Flock_Success), s)"
    by (rule Verify_if_Device_is_Used_path [OF assms])
  show "flock env s path = EWOULDBLOCK \<longleftrightarrow> already_locked env s path"
    by (simp add: flock_def)
next
  fix d :: OpenCL_device
  assume d: "parent_platform d = Some (off, pn) \<and> dev_id d = dev \<and> dev_name d = dn"
  then have p: "get_lock_filename (dev_id d) off pn (dev_name d) = Inr path"
    using assms by simp
  show "if open_fails env path \<or> flock env s path \<noteq> Flock_Success
             then Lock env d s = (Inl Lock_Error, s)
             else Lock env d s
                    = (Inr (d\<lparr>lock_file := new_descriptor s, file_locked := True\<rparr>),
                       s\<lparr>held_locks := (new_descriptor s, path) # held_locks s\<rparr>)"
    using Lock_cases [OF conjunct1 [OF d] p, of env s] by simp
qed

theorem probe_marks_any_failure_witness:
  "get_lock_filename 0 0 ''P'' ''c'' = Inr ''/tmp/gpuPlatform__0__Device__0__P__c_.lck''
   \<and> Verify_if_Device_is_Used example_env 0 0 ''P'' ''c'' start = (Inr False, start)
   \<and> Verify_if_Device_is_Used unopenable_env 0 0 ''P'' ''c'' start = (Inr True, start)
   \<and> Verify_if_Device_is_Used busy_env 0 0 ''P'' ''c'' start = (Inr True, start)
   \<and> flock busy_env start ''/tmp/gpuPlatform__0__Device__0__P__c_.lck'' = EWOULDBLOCK
   \<and> parent_platform example_device = Some (0, ''P'')
   \<and> dev_id example_device = 0 \<and> dev_name example_device = ''c''
   \<and> Lock busy_env example_device start = (Inl Lock_Error, start)
   \<and> Lock unopenable_env example_device start = (Inl Lock_Error, start)
   \<and> fst (Lock example_env example_device start)
       = Inr (example_device\<lparr>lock_file := new_descriptor start, file_locked := True\<rparr>)"
proof -
  note t1 = probe_marks_any_failure_in_use [OF example_path_c, of example_env start]
  note t2 = probe_marks_any_failure_in_use [OF example_path_c, of unopenable_env start]
  note t3 = probe_marks_any_failure_in_use [OF example_path_c, of busy_env start]
  have fl: "flock example_env start ''/tmp/gpuPlatform__0__Device__0__P__c_.lck'' = Flock_Success"
    "flock busy_env start ''/tmp/gpuPlatform__0__Device__0__P__c_.lck'' = EWOULDBLOCK"
    "\<not> open_fails example_env ''/tmp/gpuPlatform__0__Device__0__P__c_.lck''"
    "open_fails unopenable_env ''/tmp/gpuPlatform__0__Device__0__P__c_.lck''"
    by (simp_all add: flock_def already_locked_def example_env_def busy_env_def unopenable_env_def
        start_def)
  have dv: "parent_platform example_device = Some (0, ''P'') \<and> dev_id example_device = 0
      \<and> dev_name example_device = ''c''"
    by (simp add: example_device_def OpenCL_device_new_def)
  have a: "Verify_if_Device_is_Used example_env 0 0 ''P'' ''c'' start = (Inr False, start)"
    using t1 fl by simp
  have b: "Verify_if_Device_is_Used unopenable_env 0 0 ''P'' ''c'' start = (Inr True, start)"
    using t2 fl by simp
  have c: "Verify_if_Device_is_Used busy_env 0 0 ''P'' ''c'' start = (Inr True, start)"
    using t3 fl by simp
  have d: "Lock busy_env example_device start = (Inl Lock_Error, start)"
    using t3 [THEN conjunct2, THEN conjunct2, rule_format, OF dv] fl by simp
  have e: "Lock unopenable_env example_device start = (Inl Lock_Error, start)"
    using t2 [THEN conjunct2, THEN conjunct2, rule_format, OF dv] fl by simp
  have f: "fst (Lock example_env example_device start)
       = Inr (example_device\<lparr>lock_file := new_descriptor start, file_locked := True\<rparr>)"
    using t1 [THEN conjunct2, THEN conjunct2, rule_format, OF dv] fl by simp
  show ?thesis
    using example_path_c a b c d e f fl(2) dv by blast
qed

section \<open>Claim C4: all devices in use\<close>

text \<open>
  Claim C4. When the probe has marked every discovered device in use, \<open>Initialize\<close> aborts
  (with "All devices are in use!" when the discovery itself came to its end) and
  \<open>clCreateContext\<close> has not been called on any device.
\<close>

theorem all_devices_in_use_aborts:
  assumes "\<forall>l1 all s1. enumerate_devices env pid off nm l s = (Inr (l1, all), s1)
             \<longrightarrow> (\<forall>d\<in>set (device_list l1). device_is_in_use d)"
  shows "(\<exists>e. fst (OpenCL_devices_list_Initialize env pid off nm l s) = Inl e)
       \<and> context_calls (snd (OpenCL_devices_list_Initialize env pid off nm l s)) = context_calls s
       \<and> (\<forall>l1 all s1. enumerate_devices env pid off nm l s = (Inr (l1, all), s1)
             \<longrightarrow> OpenCL_devices_list_Initialize env pid off nm l s = (Inl All_Devices_In_Use, s1))"
proof -
  obtain r s1 where e: "enumerate_devices env pid off nm l s = (r, s1)"
    by (cases "enumerate_devices env pid off nm l s") simp
  have calls: "context_calls s1 = context_calls s"
    using enumerate_devices_context_calls [of env pid off nm l s] e by simp
  show ?thesis
  proof (cases r)
    case (Inl err)
    then show ?thesis
      using e calls by (simp add: OpenCL_devices_list_Initialize_def)
  next
    case (Inr p)
    obtain l1 all where p: "p = (l1, all)" by (cases p)
    have "all = (\<forall>d\<in>set (device_list l1). device_is_in_use d)"
      using enumerate_devices_devices(7) [OF e [unfolded Inr p] refl refl] .
    then have "all" using assms e Inr p by blast
    then show ?thesis
      using e Inr p calls by (simp add: OpenCL_devices_list_Initialize_def)
  qed
qed

theorem all_devices_in_use_witness:
  "enumerate_devices busy_env 7 0 ''P'' OpenCL_devices_list_new start
     = (Inr (OpenCL_devices_list_new
              \<lparr>nb_gpu := 2, nb_cpu := 1,
               device_list := map (\<lambda>d. d\<lparr>parent_platform := None, device_is_in_use := True\<rparr>)
                                [example_cpu, example_gpu0, example_gpu1]\<rparr>, True), start)
   \<and> OpenCL_devices_list_Initialize busy_env 7 0 ''P'' OpenCL_devices_list_new start
       = (Inl All_Devices_In_Use, start)
   \<and> context_calls (snd (OpenCL_devices_list_Initialize busy_env 7 0 ''P''
        OpenCL_devices_list_new start)) = []"
proof -
  have h: "\<forall>l1 all s1. enumerate_devices busy_env 7 0 ''P'' OpenCL_devices_list_new start = (Inr (l1, all), s1)
       \<longrightarrow> (\<forall>d\<in>set (device_list l1). device_is_in_use d)"
    by (simp add: busy_enumerate)
  note t = all_devices_in_use_aborts [OF h]
  have "OpenCL_devices_list_Initialize busy_env 7 0 ''P'' OpenCL_devices_list_new start
       = (Inl All_Devices_In_Use, start)"
    using t [THEN conjunct2, THEN conjunct2, rule_format, OF busy_enumerate] .
  moreover have "context_calls (snd (OpenCL_devices_list_Initialize busy_env 7 0 ''P''
        OpenCL_devices_list_new start)) = []"
    using t by (simp add: start_def)
  ultimately show ?thesis using busy_enumerate by blast
qed

section \<open>Claim C5: the device ids\<close>

text \<open>
  Claim C5. After the discovery of a platform with \<open>nb_cpu\<close> CPUs and \<open>nb_gpu\<close> GPUs the
  list holds the devices with the ids \<open>0, 1, ..., nb_cpu + nb_gpu - 1\<close> in this order:
  first the CPUs in the order of the API's array, then the GPUs in the order of theirs.
  When \<open>Initialize\<close> returns, its sorted list carries the same ids, each once, and a device
  is a GPU exactly when its id is at least \<open>nb_cpu\<close>.
\<close>

theorem device_ids_contiguous:
  assumes "enumerate_devices env pid off nm l s = (Inr (l1, all), s1)"
    and "cpus = snd (clGetDeviceIDs env pid CL_DEVICE_TYPE_CPU)"
    and "gpus = snd (clGetDeviceIDs env pid CL_DEVICE_TYPE_GPU)"
  shows "nb_cpu l1 = length cpus \<and> nb_gpu l1 = length gpus
       \<and> map dev_id (device_list l1) = map int [0 ..< nb_cpu l1 + nb_gpu l1]
       \<and> map device (device_list l1) = cpus @ gpus
       \<and> map device_is_gpu (device_list l1) = replicate (nb_cpu l1) False @ replicate (nb_gpu l1) True
       \<and> (\<forall>l' s'. OpenCL_devices_list_Initialize env pid off nm l s = (Inr l', s') \<longrightarrow>
            nb_cpu l' = length cpus \<and> nb_gpu l' = length gpus
          \<and> mset (map dev_id (device_list l')) = mset (map int [0 ..< nb_cpu l' + nb_gpu l'])
          \<and> (\<forall>d\<in>set (device_list l'). device_is_gpu d \<longleftrightarrow> int (nb_cpu l') \<le> dev_id d))"
proof -
  note E = enumerate_devices_devices [OF assms]
  note F = enumerated_fields [OF assms]
  have ids: "map dev_id (device_list l1) = map int [0 ..< nb_cpu l1 + nb_gpu l1]"
    using E(1,2,3) F(1) by (intro nth_equalityI) simp_all
  have handles: "map device (device_list l1) = cpus @ gpus"
    using E(3) F(2) by (intro nth_equalityI) simp_all
  have kinds: "map device_is_gpu (device_list l1) = replicate (nb_cpu l1) False @ replicate (nb_gpu l1) True"
    using E(1,2,3) F(3) by (intro nth_equalityI) (auto simp: nth_append)
  have final: "nb_cpu l' = length cpus \<and> nb_gpu l' = length gpus
          \<and> mset (map dev_id (device_list l')) = mset (map int [0 ..< nb_cpu l' + nb_gpu l'])
          \<and> (\<forall>d\<in>set (device_list l'). device_is_gpu d \<longleftrightarrow> int (nb_cpu l') \<le> dev_id d)"
    if init: "OpenCL_devices_list_Initialize env pid off nm l s = (Inr l', s')" for l' s'
  proof -
    obtain l1' s1' i dl4 where
      e: "enumerate_devices env pid off nm l s = (Inr (l1', False), s1')" and
      loop: "set_context_loop env 0 (list_sort (store_parent_platform off nm (device_list l1'))) s1'
             = (Some i, dl4, s')" and
      l': "l' = l1'\<lparr>device_list := dl4, preferred_device := Some i, is_initialized := True\<rparr>"
      using Initialize_Inr [OF init] by blast
    have l1': "l1' = l1" using e assms(1) by simp
    let ?dl3 = "list_sort (store_parent_platform off nm (device_list l1))"
    have erased: "map (dev_context_update (\<lambda>c. 0)) dl4 = map (dev_context_update (\<lambda>c. 0)) ?dl3"
      using set_context_loop_same [OF loop] l1' by simp
    have m_id: "map dev_id dl4 = map dev_id ?dl3"
      by (rule erased_map [OF erased]) simp
    have m_pair: "map (\<lambda>d. (device_is_gpu d, dev_id d)) dl4 = map (\<lambda>d. (device_is_gpu d, dev_id d)) ?dl3"
      by (rule erased_map [OF erased]) simp
    have "mset (map dev_id ?dl3) = image_mset dev_id (mset (store_parent_platform off nm (device_list l1)))"
      by (simp add: mset_list_sort)
    also have "\<dots> = mset (map dev_id (device_list l1))"
      by (simp add: store_parent_platform_def image_mset.compositionality o_def)
    finally have ms: "mset (map dev_id dl4) = mset (map int [0 ..< nb_cpu l1 + nb_gpu l1])"
      using m_id ids by simp
    have gpu: "device_is_gpu d \<longleftrightarrow> int (nb_cpu l1) \<le> dev_id d" if "d \<in> set dl4" for d
    proof -
      have "(device_is_gpu d, dev_id d) \<in> set (map (\<lambda>d. (device_is_gpu d, dev_id d)) dl4)"
        using that by force
      then have "(device_is_gpu d, dev_id d) \<in> (\<lambda>d. (device_is_gpu d, dev_id d)) ` set ?dl3"
        using m_pair by simp
      then have "(device_is_gpu d, dev_id d)
          \<in> (\<lambda>d. (device_is_gpu d, dev_id d)) ` set (device_list l1)"
        by (auto simp: set_list_sort store_parent_platform_def)
      then obtain k where k: "k < length (device_list l1)"
        "device_is_gpu d = device_is_gpu (device_list l1 ! k)" "dev_id d = dev_id (device_list l1 ! k)"
        by (auto simp: in_set_conv_nth)
      then show ?thesis
        using F(1,3) [of k] E(1,3) by simp
    qed
    show ?thesis
      using l' l1' E(1,2) ms gpu by simp
  qed
  show ?thesis
    using E(1,2) ids handles kinds final by blast
qed

theorem device_ids_witness:
  "enumerate_devices example_env 7 0 ''P'' OpenCL_devices_list_new start
     = (Inr (OpenCL_devices_list_new
              \<lparr>nb_gpu := 2, nb_cpu := 1,
               device_list := map (parent_platform_update (\<lambda>p. None))
                                [example_cpu, example_gpu0, example_gpu1]\<rparr>, False), start)
   \<and> [10] = snd (clGetDeviceIDs example_env 7 CL_DEVICE_TYPE_CPU)
   \<and> [20, 21] = snd (clGetDeviceIDs example_env 7 CL_DEVICE_TYPE_GPU)
   \<and> map dev_id (map (parent_platform_update (\<lambda>p. None)) [example_cpu, example_gpu0, example_gpu1])
       = [0, 1, 2]
   \<and> map device (map (parent_platform_update (\<lambda>p. None)) [example_cpu, example_gpu0, example_gpu1])
       = [10, 20, 21]
   \<and> map device_is_gpu (map (parent_platform_update (\<lambda>p. None)) [example_cpu, example_gpu0, example_gpu1])
       = [False, True, True]
   \<and> (\<exists>l' s'. OpenCL_devices_list_Initialize example_env 7 0 ''P'' OpenCL_devices_list_new start
          = (Inr l', s')
        \<and> nb_cpu l' = length [10::nat] \<and> nb_gpu l' = length [20::nat, 21]
        \<and> mset (map dev_id (device_list l')) = mset (map int [0 ..< nb_cpu l' + nb_gpu l']))"
proof -
  have c: "[10] = snd (clGetDeviceIDs example_env 7 CL_DEVICE_TYPE_CPU)"
    and g: "[20, 21] = snd (clGetDeviceIDs example_env 7 CL_DEVICE_TYPE_GPU)"
    by (simp_all add: example_env_def)
  note t = device_ids_contiguous [OF example_enumerate c g]
  have up: "[0 ..< 3] = [0, 1, 2]" by (simp add: upt_rec)
  have a: "map dev_id (map (parent_platform_update (\<lambda>p. None)) [example_cpu, example_gpu0, example_gpu1])
       = [0, 1, 2]"
    "map device (map (parent_platform_update (\<lambda>p. None)) [example_cpu, example_gpu0, example_gpu1])
       = [10, 20, 21]"
    "map device_is_gpu (map (parent_platform_update (\<lambda>p. None)) [example_cpu, example_gpu0, example_gpu1])
       = [False, True, True]"
    using t by (simp_all add: up eval_nat_numeral)
  obtain l' s' where i: "OpenCL_devices_list_Initialize example_env 7 0 ''P'' OpenCL_devices_list_new start
          = (Inr l', s')"
    using example_Initialize by blast
  have "nb_cpu l' = length [10::nat] \<and> nb_gpu l' = length [20::nat, 21]
        \<and> mset (map dev_id (device_list l')) = mset (map int [0 ..< nb_cpu l' + nb_gpu l'])"
    using t [THEN conjunct2, THEN conjunct2, THEN conjunct2, THEN conjunct2, THEN conjunct2,
        rule_format, OF i]
    by blast
  then show ?thesis
    using example_enumerate c g a i by blast
qed

section \<open>Claim C6: the classification of the vendor\<close>

text \<open>
  Claim C6. The vendor string of a platform is lower-cased and searched for the words
  "nvidia", then "advanced micro devices" or "amd", then "intel", then "apple"; the first
  that occurs in it decides the key. When none occurs, the round of the loop aborts the
  process, and so \<open>Initialize\<close> of the platform list aborts whenever one of the
  discovered platforms has such a vendor.
\<close>

theorem vendor_classification:
  "platform_vendor_key vendor =
     (if sublist ''nvidia'' (map ascii_lower vendor) then Inr OPENCL_PLATFORMS_NVIDIA
      else if sublist ''advanced micro devices'' (map ascii_lower vendor)
              \<or> sublist ''amd'' (map ascii_lower vendor)
      then Inr OPENCL_PLATFORMS_AMD
      else if sublist ''intel'' (map ascii_lower vendor) then Inr OPENCL_PLATFORMS_INTEL
      else if sublist ''apple'' (map ascii_lower vendor) then Inr OPENCL_PLATFORMS_APPLE
      else Inl Unknown_Platform)
   \<and> (\<forall>platform. OpenCL_Test_Success (fst (clGetPlatformInfo env platform CL_PLATFORM_VENDOR))
         \<and> vendor_key_of env platform = Inl Unknown_Platform \<longrightarrow>
         platform_round env pref platform off m s = (Inl Unknown_Platform, s))
   \<and> (\<forall>i. i < length (snd (clGetPlatformIDs env))
         \<and> vendor_key_of env (snd (clGetPlatformIDs env) ! i) = Inl Unknown_Platform \<longrightarrow>
         (\<exists>e. fst (OpenCL_platforms_list_Initialize env pref pl s) = Inl e))"
proof (intro conjI allI impI)
  have lower: "map tolower vendor = map ascii_lower vendor"
    by (simp add: tolower_ascii_lower)
  show "platform_vendor_key vendor =
     (if sublist ''nvidia'' (map ascii_lower vendor) then Inr OPENCL_PLATFORMS_NVIDIA
      else if sublist ''advanced micro devices'' (map ascii_lower vendor)
              \<or> sublist ''amd'' (map ascii_lower vendor)
      then Inr OPENCL_PLATFORMS_AMD
      else if sublist ''intel'' (map ascii_lower vendor) then Inr OPENCL_PLATFORMS_INTEL
      else if sublist ''apple'' (map ascii_lower vendor) then Inr OPENCL_PLATFORMS_APPLE
      else Inl Unknown_Platform)"
    unfolding platform_vendor_key_def Let_def lower string_find_iff by simp
next
  fix platform
  assume "OpenCL_Test_Success (fst (clGetPlatformInfo env platform CL_PLATFORM_VENDOR))
         \<and> vendor_key_of env platform = Inl Unknown_Platform"
  then show "platform_round env pref platform off m s = (Inl Unknown_Platform, s)"
    using platform_round_Unknown by blast
next
  fix i
  let ?ids = "snd (clGetPlatformIDs env)"
  assume i: "i < length ?ids \<and> vendor_key_of env (?ids ! i) = Inl Unknown_Platform"
  show "\<exists>e. fst (OpenCL_platforms_list_Initialize env pref pl s) = Inl e"
  proof (cases "fst (OpenCL_platforms_list_Initialize env pref pl s)")
    case (Inl e)
    then show ?thesis by blast
  next
    case (Inr pl')
    then have "OpenCL_platforms_list_Initialize env pref pl s
        = (Inr pl', snd (OpenCL_platforms_list_Initialize env pref pl s))"
      by (metis prod.collapse)
    from Initialize_platforms_loop [OF this]
    have "spec_platforms_loop env pref (zip ?ids [0 ..< length ?ids]) (platforms pl) s
        = (Inr (platforms pl'), snd (OpenCL_platforms_list_Initialize env pref pl s))"
      using platforms_loop_spec [of 0 ?ids env pref "platforms pl" s] by simp
    from spec_platforms_loop_keys [OF this]
    have "\<forall>(pid, ix) \<in> set (zip ?ids [0 ..< length ?ids]). \<exists>k. vendor_key_of env pid = Inr k" .
    moreover have "(?ids ! i, i) \<in> set (zip ?ids [0 ..< length ?ids])"
      using i zip_upt_split(1) [of i ?ids] by (metis in_set_conv_decomp)
    ultimately show ?thesis using i by auto
  qed
qed

theorem vendor_classification_witness:
  "sublist ''nvidia'' (map ascii_lower ''NVIDIA Corporation'')
   \<and> platform_vendor_key ''NVIDIA Corporation'' = Inr OPENCL_PLATFORMS_NVIDIA
   \<and> \<not> sublist ''nvidia'' (map ascii_lower ''Advanced Micro Devices, Inc.'')
   \<and> sublist ''advanced micro devices'' (map ascii_lower ''Advanced Micro Devices, Inc.'')
   \<and> platform_vendor_key ''Advanced Micro Devices, Inc.'' = Inr OPENCL_PLATFORMS_AMD
   \<and> platform_vendor_key ''Intel(R) Corporation'' = Inr OPENCL_PLATFORMS_INTEL
   \<and> platform_vendor_key ''Apple'' = Inr OPENCL_PLATFORMS_APPLE
   \<and> platform_vendor_key ''Portable Computing Language'' = Inl Unknown_Platform
   \<and> OpenCL_Test_Success (fst (clGetPlatformInfo unknown_vendor_env 7 CL_PLATFORM_VENDOR))
   \<and> vendor_key_of unknown_vendor_env 7 = Inl Unknown_Platform
   \<and> platform_round unknown_vendor_env ''-1'' 7 0 [] start = (Inl Unknown_Platform, start)
   \<and> 0 < length (snd (clGetPlatformIDs unknown_vendor_env))
   \<and> vendor_key_of unknown_vendor_env (snd (clGetPlatformIDs unknown_vendor_env) ! 0)
       = Inl Unknown_Platform
   \<and> (\<exists>e. fst (OpenCL_platforms_list_Initialize unknown_vendor_env ''-1''
                 OpenCL_platforms_list_new start) = Inl e)"
proof -
  have sub: "sublist ''nvidia'' (map ascii_lower ''NVIDIA Corporation'')"
    "\<not> sublist ''nvidia'' (map ascii_lower ''Advanced Micro Devices, Inc.'')"
    "sublist ''advanced micro devices'' (map ascii_lower ''Advanced Micro Devices, Inc.'')"
    "\<not> sublist ''nvidia'' (map ascii_lower ''Intel(R) Corporation'')"
    "\<not> sublist ''advanced micro devices'' (map ascii_lower ''Intel(R) Corporation'')"
    "\<not> sublist ''amd'' (map ascii_lower ''Intel(R) Corporation'')"
    "sublist ''intel'' (map ascii_lower ''Intel(R) Corporation'')"
    "\<not> sublist ''nvidia'' (map ascii_lower ''Apple'')"
    "\<not> sublist ''advanced micro devices'' (map ascii_lower ''Apple'')"
    "\<not> sublist ''amd'' (map ascii_lower ''Apple'')"
    "\<not> sublist ''intel'' (map ascii_lower ''Apple'')"
    "sublist ''apple'' (map ascii_lower ''Apple'')"
    "\<not> sublist ''nvidia'' (map ascii_lower ''Portable Computing Language'')"
    "\<not> sublist ''advanced micro devices'' (map ascii_lower ''Portable Computing Language'')"
    "\<not> sublist ''amd'' (map ascii_lower ''Portable Computing Language'')"
    "\<not> sublist ''intel'' (map ascii_lower ''Portable Computing Language'')"
    "\<not> sublist ''apple'' (map ascii_lower ''Portable Computing Language'')"
    by (simp_all add: string_find_iff [of _ _ 0, symmetric] ascii_lower_def)
  have n: "platform_vendor_key ''NVIDIA Corporation'' = Inr OPENCL_PLATFORMS_NVIDIA"
    using vendor_classification [of "''NVIDIA Corporation''"] sub by simp
  have a: "platform_vendor_key ''Advanced Micro Devices, Inc.'' = Inr OPENCL_PLATFORMS_AMD"
    using vendor_classification [of "''Advanced Micro Devices, Inc.''"] sub by simp
  have i: "platform_vendor_key ''Intel(R) Corporation'' = Inr OPENCL_PLATFORMS_INTEL"
    using vendor_classification [of "''Intel(R) Corporation''"] sub by simp
  have p: "platform_vendor_key ''Apple'' = Inr OPENCL_PLATFORMS_APPLE"
    using vendor_classification [of "''Apple''"] sub by simp
  have u: "platform_vendor_key ''Portable Computing Language'' = Inl Unknown_Platform"
    using vendor_classification [of "''Portable Computing Language''"] sub by simp
  have q: "OpenCL_Test_Success (fst (clGetPlatformInfo unknown_vendor_env 7 CL_PLATFORM_VENDOR))"
    "vendor_key_of unknown_vendor_env 7 = Inl Unknown_Platform"
    "0 < length (snd (clGetPlatformIDs unknown_vendor_env))"
    "snd (clGetPlatformIDs unknown_vendor_env) ! 0 = 7"
    by (simp_all add: unknown_vendor_env_def example_env_def vendor_key_of_def u
        OpenCL_Test_Success_def CL_SUCCESS_def)
  note t = vendor_classification [of "''Apple''" unknown_vendor_env "''-1''" 0 "[]" start
      OpenCL_platforms_list_new]
  have r: "platform_round unknown_vendor_env ''-1'' 7 0 [] start = (Inl Unknown_Platform, start)"
    using t [THEN conjunct2, THEN conjunct1, rule_format, of 7] q by simp
  have e: "\<exists>e. fst (OpenCL_platforms_list_Initialize unknown_vendor_env ''-1''
                 OpenCL_platforms_list_new start) = Inl e"
    using t [THEN conjunct2, THEN conjunct2, rule_format, of 0] q by simp
  show ?thesis
    using sub n a i p u q r e by simp
qed

section \<open>Claim C7: the offsets of the platforms\<close>

text \<open>
  Claim C7. The loop of \<open>Initialize\<close>, with its counter that starts at 0 and grows by one
  in each round, is the loop that initialises every discovered platform with its 0-based
  index in discovery order as offset, whatever its vendor key. When \<open>Initialize\<close> of a
  newly constructed platform list returns, every discovered platform has an entry under
  its key; the platform stored under a key is the last discovered one of that vendor,
  with its own index as offset (an earlier platform of the same vendor has been
  overwritten); and two stored platforms never have the same offset.
\<close>

theorem platform_offsets_follow_discovery_order:
  assumes "OpenCL_platforms_list_Initialize env pref pl s = (Inr pl', s')"
    and "platforms pl = []"
    and "ids = snd (clGetPlatformIDs env)"
  shows "platforms_loop env pref ids 0 0 [] s
           = spec_platforms_loop env pref (zip ids [0 ..< length ids]) [] s
       \<and> (\<forall>i < length ids. \<exists>k p. vendor_key_of env (ids ! i) = Inr k
                                \<and> map_of (platforms pl') k = Some p)
       \<and> (\<forall>k p. map_of (platforms pl') k = Some p \<longrightarrow>
            (\<exists>i < length ids. id_offset p = int i \<and> platform_id p = ids ! i \<and> key p = k
               \<and> vendor_key_of env (ids ! i) = Inr k
               \<and> (\<forall>j. i < j \<and> j < length ids \<longrightarrow> vendor_key_of env (ids ! j) \<noteq> Inr k)))
       \<and> (\<forall>k1 p1 k2 p2. map_of (platforms pl') k1 = Some p1 \<and> map_of (platforms pl') k2 = Some p2
            \<and> k1 \<noteq> k2 \<longrightarrow> id_offset p1 \<noteq> id_offset p2)"
proof -
  let ?ps = "zip ids [0 ..< length ids]"
  have refine: "platforms_loop env pref ids 0 0 [] s = spec_platforms_loop env pref ?ps [] s"
    using platforms_loop_spec [of 0 ids env pref "[]" s] by simp
  have loop: "platforms_loop env pref ids 0 0 [] s = (Inr (platforms pl'), s')"
    using Initialize_platforms_loop [OF assms(1)] assms(2,3) by simp
  then have spec: "spec_platforms_loop env pref ?ps [] s = (Inr (platforms pl'), s')"
    using refine by simp
  note keys = spec_platforms_loop_keys [OF spec]
  note entries = spec_platforms_loop_entries [OF spec]
  have last: "\<exists>i < length ids. vendor_key_of env (ids ! i) = Inr k
      \<and> (\<forall>j. i < j \<and> j < length ids \<longrightarrow> vendor_key_of env (ids ! j) \<noteq> Inr k)"
    if "t < length ids" "vendor_key_of env (ids ! t) = Inr k" for t k
  proof -
    have "\<exists>x. (x < length ids \<and> vendor_key_of env (ids ! x) = Inr k)
        \<and> (\<forall>y. y < length ids \<and> vendor_key_of env (ids ! y) = Inr k \<longrightarrow> y \<le> x)"
      by (rule ex_has_greatest_nat [where b = "length ids"]) (use that in auto)
    then obtain x where "x < length ids" "vendor_key_of env (ids ! x) = Inr k"
      "\<forall>y. y < length ids \<and> vendor_key_of env (ids ! y) = Inr k \<longrightarrow> y \<le> x"
      by blast
    then show ?thesis by (intro exI [of _ x]) auto
  qed
  have stored: "\<exists>p. map_of (platforms pl') k = Some p \<and> key p = k \<and> platform_id p = ids ! i
      \<and> id_offset p = int i"
    if i: "i < length ids" "vendor_key_of env (ids ! i) = Inr k"
      "\<forall>j. i < j \<and> j < length ids \<longrightarrow> vendor_key_of env (ids ! j) \<noteq> Inr k" for i k
  proof -
    note Z = zip_upt_split [OF i(1)]
    have "\<forall>(q, j) \<in> set (drop (Suc i) ?ps). vendor_key_of env q \<noteq> Inr k"
      using Z(2) i(3) by auto
    then show ?thesis
      using entries [THEN conjunct2, rule_format, of "take i ?ps" "ids ! i" i "drop (Suc i) ?ps" k]
        Z(1) i(2) by blast
  qed
  have every: "\<exists>k p. vendor_key_of env (ids ! i) = Inr k \<and> map_of (platforms pl') k = Some p"
    if il: "i < length ids" for i
  proof -
    have "(ids ! i, i) \<in> set ?ps"
      using zip_upt_split(1) [OF il] by (metis in_set_conv_decomp)
    then obtain k where k: "vendor_key_of env (ids ! i) = Inr k"
      using keys by blast
    obtain x where "x < length ids" "vendor_key_of env (ids ! x) = Inr k"
      "\<forall>j. x < j \<and> j < length ids \<longrightarrow> vendor_key_of env (ids ! j) \<noteq> Inr k"
      using last [OF il k] by blast
    then show ?thesis using stored k by blast
  qed
  have origin: "\<exists>i < length ids. id_offset p = int i \<and> platform_id p = ids ! i \<and> key p = k
               \<and> vendor_key_of env (ids ! i) = Inr k
               \<and> (\<forall>j. i < j \<and> j < length ids \<longrightarrow> vendor_key_of env (ids ! j) \<noteq> Inr k)"
    if p: "map_of (platforms pl') k = Some p" for k p
  proof -
    have "\<not> (\<forall>(pid, ix) \<in> set ?ps. vendor_key_of env pid \<noteq> Inr k)"
      using entries [THEN conjunct1, rule_format, of k] p by auto
    then obtain pid ix where "(pid, ix) \<in> set ?ps" "vendor_key_of env pid = Inr k"
      by blast
    then obtain t where "t < length ids" "vendor_key_of env (ids ! t) = Inr k"
      by (auto simp: in_set_conv_nth)
    then obtain i where i: "i < length ids" "vendor_key_of env (ids ! i) = Inr k"
      "\<forall>j. i < j \<and> j < length ids \<longrightarrow> vendor_key_of env (ids ! j) \<noteq> Inr k"
      using last by blast
    then show ?thesis using stored [OF i] p by auto
  qed
  have unique: "id_offset p1 \<noteq> id_offset p2"
    if "map_of (platforms pl') k1 = Some p1 \<and> map_of (platforms pl') k2 = Some p2 \<and> k1 \<noteq> k2"
    for k1 p1 k2 p2
    using origin [of k1 p1] origin [of k2 p2] that by auto
  show ?thesis
    using refine every origin unique by blast
qed


theorem platform_offsets_witness:
  "platforms OpenCL_platforms_list_new = []
   \<and> [7, 8] = snd (clGetPlatformIDs twin_env)
   \<and> vendor_key_of twin_env 7 = Inr ''nvidia'' \<and> vendor_key_of twin_env 8 = Inr ''nvidia''
   \<and> (\<exists>pl' s'. OpenCL_platforms_list_Initialize twin_env ''-1'' OpenCL_platforms_list_new start
                  = (Inr pl', s')
         \<and> (\<exists>p. map_of (platforms pl') ''nvidia'' = Some p \<and> id_offset p = 1 \<and> platform_id p = 8))"
proof -
  have fresh: "platforms OpenCL_platforms_list_new = []"
    by (simp add: OpenCL_platforms_list_new_def)
  have ids: "[7, 8] = snd (clGetPlatformIDs twin_env)"
    by (simp add: twin_env_def)
  have k: "vendor_key_of twin_env 7 = Inr ''nvidia''" "vendor_key_of twin_env 8 = Inr ''nvidia''"
    by (simp_all add: vendor_key_of_def twin_env_def example_env_def nvidia_key)
  obtain pl' s' where init: "OpenCL_platforms_list_Initialize twin_env ''-1'' OpenCL_platforms_list_new start
                  = (Inr pl', s')"
    using twin_Initialize by blast
  note t = platform_offsets_follow_discovery_order [OF init fresh ids]
  obtain k0 p where p: "vendor_key_of twin_env ([7, 8] ! 0) = Inr k0" "map_of (platforms pl') k0 = Some p"
    using t [THEN conjunct2, THEN conjunct1, rule_format, of 0] by auto
  then have k0: "k0 = ''nvidia''" using k by simp
  obtain i where i: "i < length [7::nat, 8]" "id_offset p = int i" "platform_id p = [7, 8] ! i"
    "\<forall>j. i < j \<and> j < length [7::nat, 8] \<longrightarrow> vendor_key_of twin_env ([7, 8] ! j) \<noteq> Inr k0"
    using t [THEN conjunct2, THEN conjunct2, THEN conjunct1, rule_format, OF p(2)] by blast
  have "i = 1"
  proof (rule ccontr)
    assume "i \<noteq> 1"
    then have "i = 0" using i(1) by simp
    then show False using i(4) [rule_format, of 1] k k0 by simp
  qed
  then have "map_of (platforms pl') ''nvidia'' = Some p \<and> id_offset p = 1 \<and> platform_id p = 8"
    using p(2) k0 i by simp
  then show ?thesis
    using fresh ids k init by blast
qed

section \<open>Claim C8: Unlock\<close>

text \<open>
  Claim C8. \<open>Unlock()\<close> changes nothing when the device does not hold its lock; when it
  does, the descriptor of the lock is closed and the flag cleared. A second \<open>Unlock()\<close>
  changes nothing more. After a successful \<open>Lock()\<close> the device holds the lock of its
  path; after the \<open>Unlock()\<close> that follows nobody in the process holds it, and a further
  \<open>Lock()\<close> succeeds (the locks of other processes staying as they were).
\<close>

theorem Unlock_releases_and_is_idempotent:
  "(\<not> file_locked d \<longrightarrow> Unlock d s = (d, s))
   \<and> (file_locked d \<longrightarrow>
        Unlock d s = (d\<lparr>file_locked := False\<rparr>, UnlockFile (lock_file d) s)
        \<and> lock_file d \<notin> fst ` set (held_locks (snd (Unlock d s))))
   \<and> Unlock (fst (Unlock d s)) (snd (Unlock d s)) = Unlock d s
   \<and> (\<forall>d1 s1. Lock env d s = (Inr d1, s1) \<longrightarrow>
        (\<exists>path. get_lock_filename (dev_id d) (fst (the (parent_platform d)))
                   (snd (the (parent_platform d))) (dev_name d) = Inr path
           \<and> file_locked d1 \<and> (lock_file d1, path) \<in> set (held_locks s1)
           \<and> \<not> file_locked (fst (Unlock d1 s1))
           \<and> path \<notin> snd ` set (held_locks (snd (Unlock d1 s1)))
           \<and> (\<exists>d3 s3. Lock env (fst (Unlock d1 s1)) (snd (Unlock d1 s1)) = (Inr d3, s3)
                  \<and> file_locked d3)))"
proof (intro conjI allI impI)
  show "Unlock d s = (d, s)" if "\<not> file_locked d"
    using that by (simp add: Unlock_def)
  show "Unlock d s = (d\<lparr>file_locked := False\<rparr>, UnlockFile (lock_file d) s)" if "file_locked d"
    using that by (simp add: Unlock_def)
  show "lock_file d \<notin> fst ` set (held_locks (snd (Unlock d s)))" if "file_locked d"
    using that by (auto simp: Unlock_def UnlockFile_def)
  show "Unlock (fst (Unlock d s)) (snd (Unlock d s)) = Unlock d s"
    by (simp add: Unlock_def)
next
  fix d1 s1
  assume L: "Lock env d s = (Inr d1, s1)"
  obtain off pn where pp: "parent_platform d = Some (off, pn)"
    using L by (cases "parent_platform d") (auto simp: Lock_def)
  obtain path where path: "get_lock_filename (dev_id d) off pn (dev_name d) = Inr path"
    using L pp by (cases "get_lock_filename (dev_id d) off pn (dev_name d)") (auto simp: Lock_def)
  note LC = Lock_cases [OF pp path, of env s]
  have ok: "\<not> open_fails env path" "flock env s path = Flock_Success"
    using L LC by (auto split: if_splits)
  have d1: "d1 = d\<lparr>lock_file := new_descriptor s, file_locked := True\<rparr>"
    and s1: "s1 = s\<lparr>held_locks := (new_descriptor s, path) # held_locks s\<rparr>"
    using L LC ok by auto
  have U: "Unlock d1 s1 = (d\<lparr>lock_file := new_descriptor s, file_locked := False\<rparr>, s)"
    by (simp add: Unlock_def d1 s1 UnlockFile_new_descriptor)
  have free: "path \<notin> snd ` set (held_locks s)"
    using ok(2) by (auto simp: flock_def already_locked_def split: if_splits)
  have again: "Lock env (d\<lparr>lock_file := new_descriptor s, file_locked := False\<rparr>) s
     = (Inr (d\<lparr>lock_file := new_descriptor s, file_locked := True\<rparr>),
        s\<lparr>held_locks := (new_descriptor s, path) # held_locks s\<rparr>)"
    using Lock_cases [of "d\<lparr>lock_file := new_descriptor s, file_locked := False\<rparr>" off pn path env s]
      pp path ok by simp
  show "\<exists>path. get_lock_filename (dev_id d) (fst (the (parent_platform d)))
                   (snd (the (parent_platform d))) (dev_name d) = Inr path
           \<and> file_locked d1 \<and> (lock_file d1, path) \<in> set (held_locks s1)
           \<and> \<not> file_locked (fst (Unlock d1 s1))
           \<and> path \<notin> snd ` set (held_locks (snd (Unlock d1 s1)))
           \<and> (\<exists>d3 s3. Lock env (fst (Unlock d1 s1)) (snd (Unlock d1 s1)) = (Inr d3, s3)
                  \<and> file_locked d3)"
    apply (rule exI [of _ path])
    using pp path free again by (simp add: U) (simp add: d1 s1)
qed

theorem Unlock_witness:
  "\<not> file_locked example_device
   \<and> Unlock example_device start = (example_device, start)
   \<and> Lock example_env example_device start
       = (Inr (example_device\<lparr>lock_file := 3, file_locked := True\<rparr>),
          start\<lparr>held_locks := [(3, ''/tmp/gpuPlatform__0__Device__0__P__c_.lck'')]\<rparr>)
   \<and> file_locked (example_device\<lparr>lock_file := 3, file_locked := True\<rparr>)
   \<and> 3 \<notin> fst ` set (held_locks (snd (Unlock (example_device\<lparr>lock_file := 3, file_locked := True\<rparr>)
         (start\<lparr>held_locks := [(3, ''/tmp/gpuPlatform__0__Device__0__P__c_.lck'')]\<rparr>))))
   \<and> (\<exists>d3 s3. Lock example_env
          (fst (Unlock (example_device\<lparr>lock_file := 3, file_locked := True\<rparr>)
                 (start\<lparr>held_locks := [(3, ''/tmp/gpuPlatform__0__Device__0__P__c_.lck'')]\<rparr>)))
          (snd (Unlock (example_device\<lparr>lock_file := 3, file_locked := True\<rparr>)
                 (start\<lparr>held_locks := [(3, ''/tmp/gpuPlatform__0__Device__0__P__c_.lck'')]\<rparr>)))
          = (Inr d3, s3) \<and> file_locked d3)"
proof -
  have nl: "\<not> file_locked example_device"
    by (simp add: example_device_def OpenCL_device_new_def)
  have l: "file_locked (example_device\<lparr>lock_file := 3, file_locked := True\<rparr>)"
    "lock_file (example_device\<lparr>lock_file := 3, file_locked := True\<rparr>) = 3"
    by simp_all
  note t1 = Unlock_releases_and_is_idempotent [of example_device start example_env]
  note t2 = Unlock_releases_and_is_idempotent
    [of "example_device\<lparr>lock_file := 3, file_locked := True\<rparr>"
        "start\<lparr>held_locks := [(3, ''/tmp/gpuPlatform__0__Device__0__P__c_.lck'')]\<rparr>"
        example_env]
  have a: "Unlock example_device start = (example_device, start)"
    using t1 nl by blast
  have b: "3 \<notin> fst ` set (held_locks (snd (Unlock (example_device\<lparr>lock_file := 3, file_locked := True\<rparr>)
         (start\<lparr>held_locks := [(3, ''/tmp/gpuPlatform__0__Device__0__P__c_.lck'')]\<rparr>))))"
    using t2 l by metis
  have c: "\<exists>d3 s3. Lock example_env
          (fst (Unlock (example_device\<lparr>lock_file := 3, file_locked := True\<rparr>)
                 (start\<lparr>held_locks := [(3, ''/tmp/gpuPlatform__0__Device__0__P__c_.lck'')]\<rparr>)))
          (snd (Unlock (example_device\<lparr>lock_file := 3, file_locked := True\<rparr>)
                 (start\<lparr>held_locks := [(3, ''/tmp/gpuPlatform__0__Device__0__P__c_.lck'')]\<rparr>)))
          = (Inr d3, s3) \<and> file_locked d3"
    using t1 [THEN conjunct2, THEN conjunct2, THEN conjunct2, rule_format, OF example_device_Lock]
    by blast
  show ?thesis
    using nl a b c l example_device_Lock by simp
qed

section \<open>Claim C9: the lock file name\<close>

text \<open>
  Claim C9 says that the path is always the base directory, the sanitised text and the
  suffix. \<open>get_lock_filename_fits\<close> above proves this for every text of at most 4095
  characters. For a platform name and a device name of 2048 characters each, both short
  enough for the 4096-byte buffers they are read into, the text does not fit the buffer
  \<open>t\<close>: \<open>sprintf\<close> writes past its end and no path is returned.
\<close>

theorem get_lock_filename_overflow:
  "length (replicate 2048 CHR ''a'') < 4096 \<and> length (replicate 2048 CHR ''b'') < 4096
   \<and> get_lock_filename 0 0 (replicate 2048 CHR ''a'') (replicate 2048 CHR ''b'')
       = Inl Buffer_Overflow
   \<and> get_lock_filename 0 0 (replicate 2048 CHR ''a'') (replicate 2048 CHR ''b'')
       \<noteq> Inr (spec_lock_path 0 0 (replicate 2048 CHR ''a'') (replicate 2048 CHR ''b''))"
  by (simp add: get_lock_filename_def Let_def string_base_def)

section \<open>Claim C10: the lockable flag\<close>

text \<open>
  Claim C10. The constructor sets the lockable flag, and every device that the
  operations of the source files produce from a constructed one is lockable. A platform
  that \<open>Initialize\<close> returns, started from lockable devices (none, for a new platform),
  has only lockable devices and a preferred device inside its list. For a platform
  with lockable devices and a preferred device, \<open>Lock_Best_Device\<close> is \<open>Lock()\<close> on the
  preferred device, never the branch that does nothing, and it leaves the devices
  lockable and the preferred device in place.
\<close>

theorem lockable_flag_never_cleared:
  "is_lockable OpenCL_device_new
   \<and> (\<forall>d. device_reachable env d \<longrightarrow> is_lockable d)
   \<and> (\<forall>p0 k off pid pref s0 p s1.
         (\<forall>d\<in>set (device_list (devices_list p0)). is_lockable d)
         \<and> OpenCL_platform_Initialize env k off pid pref p0 s0 = (Inr p, s1) \<longrightarrow>
           (\<forall>d\<in>set (device_list (devices_list p)). is_lockable d)
         \<and> (\<exists>i. preferred_device (devices_list p) = Some i
                \<and> i < length (device_list (devices_list p))))
   \<and> (\<forall>p i s.
         (\<forall>d\<in>set (device_list (devices_list p)). is_lockable d)
         \<and> preferred_device (devices_list p) = Some i
         \<and> i < length (device_list (devices_list p)) \<longrightarrow>
           Lock_Best_Device env p s =
             (case Lock env (device_list (devices_list p) ! i) s of
                (Inl e, s') \<Rightarrow> (Inl e, s')
              | (Inr d', s') \<Rightarrow>
                  (Inr (p\<lparr>devices_list := (devices_list p)
                          \<lparr>device_list := (device_list (devices_list p))[i := d']\<rparr>\<rparr>), s'))
         \<and> (\<forall>p' s'. Lock_Best_Device env p s = (Inr p', s') \<longrightarrow>
               (\<forall>d\<in>set (device_list (devices_list p')). is_lockable d)
             \<and> preferred_device (devices_list p') = Some i))"
proof (intro conjI allI impI)
  show "is_lockable OpenCL_device_new"
    by (simp add: OpenCL_device_new_def)
  show "is_lockable d" if "device_reachable env d" for d
    using that by (rule reachable_lockable)
next
  fix p0 k off pid pref s0 p s1
  assume h: "(\<forall>d\<in>set (device_list (devices_list p0)). is_lockable d)
         \<and> OpenCL_platform_Initialize env k off pid pref p0 s0 = (Inr p, s1)"
  note I = OpenCL_platform_Initialize_Inr(5) [OF conjunct2 [OF h]]
  note L = Initialize_lockable [OF conjunct1 [OF h] I]
  show "\<forall>d\<in>set (device_list (devices_list p)). is_lockable d" using L by blast
  show "\<exists>i. preferred_device (devices_list p) = Some i \<and> i < length (device_list (devices_list p))"
    using L by blast
next
  fix p :: OpenCL_platform and i s
  assume h: "(\<forall>d\<in>set (device_list (devices_list p)). is_lockable d)
         \<and> preferred_device (devices_list p) = Some i
         \<and> i < length (device_list (devices_list p))"
  then have li: "is_lockable (device_list (devices_list p) ! i)" by simp
  have pref: "preferred_device (devices_list p) = Some i" using h by simp
  show eq: "Lock_Best_Device env p s =
             (case Lock env (device_list (devices_list p) ! i) s of
                (Inl e, s') \<Rightarrow> (Inl e, s')
              | (Inr d', s') \<Rightarrow>
                  (Inr (p\<lparr>devices_list := (devices_list p)
                          \<lparr>device_list := (device_list (devices_list p))[i := d']\<rparr>\<rparr>), s'))"
    by (rule Lock_Best_Device_lockable [OF li pref])
  fix p' s'
  assume r: "Lock_Best_Device env p s = (Inr p', s')"
  obtain q s2 where q: "Lock env (device_list (devices_list p) ! i) s = (q, s2)"
    by (cases "Lock env (device_list (devices_list p) ! i) s") simp
  obtain d' where d': "q = Inr d'"
    "p' = p\<lparr>devices_list := (devices_list p)\<lparr>device_list := (device_list (devices_list p))[i := d']\<rparr>\<rparr>"
    using r eq q by (cases q) auto
  have "is_lockable d'"
    using Lock_keeps_lockable [OF q [unfolded d'(1)]] li by simp
  then show "\<forall>d\<in>set (device_list (devices_list p')). is_lockable d"
    using h d'(2) by (auto dest: set_update_subset_insert [THEN subsetD])
  show "preferred_device (devices_list p') = Some i"
    using pref d'(2) by simp
qed

theorem lockable_flag_witness:
  "is_lockable OpenCL_device_new
   \<and> device_reachable example_env OpenCL_device_new
   \<and> (\<exists>p s1. OpenCL_platform_Initialize example_env ''nvidia'' 0 7 ''-1'' OpenCL_platform_new start
                = (Inr p, s1)
        \<and> preferred_device (devices_list p) = Some 1
        \<and> 1 < length (device_list (devices_list p))
        \<and> is_lockable (device_list (devices_list p) ! 1)
        \<and> (\<exists>p' s'. Lock_Best_Device example_env p s1 = (Inr p', s')
              \<and> file_locked (device_list (devices_list p') ! 1)
              \<and> is_lockable (device_list (devices_list p') ! 1)))"
proof -
  define p where "p = OpenCL_platform_new
              \<lparr>key := ''nvidia'', id_offset := 0, platform_id := 7,
               platform_profile := ''P'', platform_version := ''P'', platform_name := ''P'',
               platform_vendor := ''NVIDIA Corporation'', platform_extensions := ''P'',
               devices_list := OpenCL_devices_list_new
                 \<lparr>nb_gpu := 2, nb_cpu := 1,
                  device_list := [example_gpu0\<lparr>dev_context := 0\<rparr>,
                                  example_cpu\<lparr>dev_context := 110\<rparr>, example_gpu1],
                  preferred_device := Some 1, is_initialized := True\<rparr>\<rparr>"
  define s1 where "s1 = start\<lparr>context_calls := [20, 10]\<rparr>"
  have init: "OpenCL_platform_Initialize example_env ''nvidia'' 0 7 ''-1'' OpenCL_platform_new start
                = (Inr p, s1)"
    unfolding p_def s1_def by (rule example_platform_Initialize)
  note t = lockable_flag_never_cleared [of example_env]
  have new: "is_lockable OpenCL_device_new" using t by blast
  have reach: "device_reachable example_env OpenCL_device_new"
    by (rule device_reachable.constructed)
  have empty: "\<forall>d\<in>set (device_list (devices_list OpenCL_platform_new)). is_lockable d"
    by (simp add: OpenCL_platform_new_def OpenCL_devices_list_new_def)
  have all: "\<forall>d\<in>set (device_list (devices_list p)). is_lockable d"
    using t [THEN conjunct2, THEN conjunct2, THEN conjunct1, rule_format, OF conjI [OF empty init]]
    by blast
  have pref: "preferred_device (devices_list p) = Some 1" "1 < length (device_list (devices_list p))"
    "device_list (devices_list p) ! 1 = example_cpu\<lparr>dev_context := 110\<rparr>"
    by (simp_all add: p_def)
  have pref': "device_list (devices_list p) ! Suc 0 = example_cpu\<lparr>dev_context := 110\<rparr>"
    by (simp add: p_def)
  have li: "is_lockable (device_list (devices_list p) ! 1)"
    using all pref(2) by (meson nth_mem)
  note lb = t [THEN conjunct2, THEN conjunct2, THEN conjunct2, rule_format,
      OF conjI [OF all conjI [OF pref(1) pref(2)]], of s1]
  have run: "Lock_Best_Device example_env p s1
      = (Inr (p\<lparr>devices_list := (devices_list p)
                \<lparr>device_list := (device_list (devices_list p))
                   [1 := example_cpu\<lparr>dev_context := 110, lock_file := 3, file_locked := True\<rparr>]\<rparr>\<rparr>),
         start\<lparr>context_calls := [20, 10],
               held_locks := [(3, ''/tmp/gpuPlatform__0__Device__0__P__c_.lck'')]\<rparr>)"
    using lb [THEN conjunct1] by (simp add: pref' s1_def example_cpu_Lock)
  have after: "file_locked (device_list (devices_list
      (p\<lparr>devices_list := (devices_list p)
                \<lparr>device_list := (device_list (devices_list p))
                   [1 := example_cpu\<lparr>dev_context := 110, lock_file := 3, file_locked := True\<rparr>]\<rparr>\<rparr>)) ! 1)"
    using pref(2) by simp
  have still: "is_lockable (device_list (devices_list
      (p\<lparr>devices_list := (devices_list p)
                \<lparr>device_list := (device_list (devices_list p))
                   [1 := example_cpu\<lparr>dev_context := 110, lock_file := 3, file_locked := True\<rparr>]\<rparr>\<rparr>)) ! 1)"
    using lb [THEN conjunct2, rule_format, OF run] pref(2) by (simp del: nth_list_update_eq)
  have inner: "\<exists>p' s'. Lock_Best_Device example_env p s1 = (Inr p', s')
              \<and> file_locked (device_list (devices_list p') ! 1)
              \<and> is_lockable (device_list (devices_list p') ! 1)"
    using run after still by blast
  show ?thesis
    using new reach init pref(1,2) li inner by blast
qed

end
